theory Spec2Isabelle
  imports Complex_Main
begin

section \<open>QuadTreePress: the quadtree of \<^verbatim>\<open>tree.py\<close> and its callers\<close>

text \<open>
  Conventions of the embedding.
  \<^item> Python numbers that are coordinates, averages or errors are \<open>real\<close> (floating-point
    rounding is not modelled); depths and requested levels are \<open>int\<close>; histogram entries
    are pixel counts and are \<open>nat\<close>.
  \<^item> An exception is a value \<open>Inl e\<close> of a sum type.
  \<^item> A mutated object is returned updated; a node object is the value of its fields.
  \<^item> The threads of \<^verbatim>\<open>__build_tree\<close> are run one after the other in the order
    of the children list; the schedule of the threads is not modelled.
\<close>

subsection \<open>Constants, points, exceptions\<close>

definition MAX_DEPTH :: int where
  "MAX_DEPTH = 8"

definition ERROR_THRESHOLD :: real where
  "ERROR_THRESHOLD = 13"

datatype exn = TypeError | ValueError | IndexError

record Point =
  x_coordinate :: real
  y_coordinate :: real

text \<open>\<^verbatim>\<open>Point.__eq__\<close>, as written: the first conjunct reads \<^verbatim>\<open>another.y_coordinate\<close>.\<close>

definition Point_eq :: "Point \<Rightarrow> Point \<Rightarrow> bool" where
  "Point_eq self another \<longleftrightarrow>
     x_coordinate self = y_coordinate another \<and> y_coordinate self = y_coordinate another"

subsection \<open>Colour statistics\<close>

text \<open>
  \<^verbatim>\<open>weighted_average\<close>: \<^verbatim>\<open>enumerate(hist)\<close> is \<^term>\<open>enumerate 0 hist\<close>, \<^verbatim>\<open>/\<close> is
  division of reals and \<^verbatim>\<open>error ** 0.5\<close> is the square root (the radicand is a sum of
  non-negative terms).
\<close>

definition weighted_average :: "nat list \<Rightarrow> real \<times> real" where
  "weighted_average hist =
     (let total = sum_list hist in
      if total > 0 then
        (let value = real (sum_list (map (\<lambda>(i, x). i * x) (enumerate 0 hist))) / real total;
             error = sum_list (map (\<lambda>(i, x). real x * (value - real i) ^ 2) (enumerate 0 hist))
                       / real total
         in (value, sqrt error))
      else (0, 0))"

text \<open>
  \<^verbatim>\<open>color_from_histogram\<close>: the slices \<^verbatim>\<open>hist[:256]\<close>, \<^verbatim>\<open>hist[256:512]\<close>,
  \<^verbatim>\<open>hist[512:768]\<close>; \<^verbatim>\<open>int(red)\<close> truncates a non-negative number, which is its floor.
\<close>

definition color_from_histogram :: "nat list \<Rightarrow> (int \<times> int \<times> int) \<times> real" where
  "color_from_histogram hist =
     (let (red, red_error) = weighted_average (take 256 hist);
          (green, green_error) = weighted_average (take 256 (drop 256 hist));
          (blue, blue_error) = weighted_average (take 256 (drop 512 hist));
          error = red_error * 0.2989 + green_error * 0.5870 + blue_error * 0.1140
      in ((\<lfloor>red\<rfloor>, \<lfloor>green\<rfloor>, \<lfloor>blue\<rfloor>), error))"

subsection \<open>Images and nodes\<close>

text \<open>
  The image is an object of the imaging library. The code reads three things from it,
  which are the fields of the record: \<^verbatim>\<open>image.size\<close>, \<^verbatim>\<open>image.getbbox()\<close> (the
  bounding box of the non-zero region of the image, or \<^verbatim>\<open>None\<close> when the image is
  entirely zero) and \<^verbatim>\<open>image.crop(box).histogram()\<close> (768 counts).
\<close>

type_synonym box = "real \<times> real \<times> real \<times> real"

record Image =
  img_size :: "nat \<times> nat"
  getbbox :: "box option"
  crop_histogram :: "box \<Rightarrow> nat list"

datatype QuadtreeNode = QuadtreeNode
  (border_box: box)
  (depth: int)
  (childrens: "QuadtreeNode list option")
  (is_leaf: bool)
  (node_points: "Point list")
  (node_center_point: Point)
  (average_color: "int \<times> int \<times> int")
  (error: real)

text \<open>Assignments to one attribute of a node.\<close>

fun set_childrens :: "QuadtreeNode list option \<Rightarrow> QuadtreeNode \<Rightarrow> QuadtreeNode" where
  "set_childrens cs (QuadtreeNode bb d _ lf ps c col e) = QuadtreeNode bb d cs lf ps c col e"

fun set_is_leaf :: "bool \<Rightarrow> QuadtreeNode \<Rightarrow> QuadtreeNode" where
  "set_is_leaf lf (QuadtreeNode bb d cs _ ps c col e) = QuadtreeNode bb d cs lf ps c col e"

fun set_node_points :: "Point list \<Rightarrow> QuadtreeNode \<Rightarrow> QuadtreeNode" where
  "set_node_points ps (QuadtreeNode bb d cs lf _ c col e) = QuadtreeNode bb d cs lf ps c col e"

text \<open>\<^verbatim>\<open>QuadtreeNode.__init__\<close>.\<close>

definition QuadtreeNode_init :: "Image \<Rightarrow> box \<Rightarrow> int \<Rightarrow> QuadtreeNode" where
  "QuadtreeNode_init img bb d =
     (case bb of (left, upper, right, lower) \<Rightarrow>
        let left_right = left + (right - left) / 2;
            top_bottom = upper + (lower - upper) / 2;
            (color, err) = color_from_histogram (crop_histogram img bb)
        in QuadtreeNode bb d None False []
             \<lparr>x_coordinate = left_right, y_coordinate = top_bottom\<rparr> color err)"

text \<open>\<^verbatim>\<open>QuadtreeNode.split\<close>: the four children, in the order of the list it assigns.\<close>

definition split_children :: "Image \<Rightarrow> QuadtreeNode \<Rightarrow> QuadtreeNode list" where
  "split_children img self =
     (case border_box self of (left, upper, right, lower) \<Rightarrow>
        let cx = x_coordinate (node_center_point self);
            cy = y_coordinate (node_center_point self);
            top_left = QuadtreeNode_init img (left, upper, cx, cy) (depth self + 1);
            top_right = QuadtreeNode_init img (cx, upper, right, cy) (depth self + 1);
            bottom_left = QuadtreeNode_init img (left, cy, cx, lower) (depth self + 1);
            bottom_right = QuadtreeNode_init img (cx, cy, right, lower) (depth self + 1)
        in [top_left, top_right, bottom_left, bottom_right])"

definition split :: "Image \<Rightarrow> QuadtreeNode \<Rightarrow> QuadtreeNode" where
  "split img self = set_childrens (Some (split_children img self)) self"

text \<open>The list a \<^verbatim>\<open>for child in node.childrens\<close> loop runs over.\<close>

definition children_list :: "QuadtreeNode \<Rightarrow> QuadtreeNode list" where
  "children_list node = (case childrens node of None \<Rightarrow> [] | Some cs \<Rightarrow> cs)"

lemma depth_split_children:
  "child \<in> set (split_children img node) \<Longrightarrow> depth child = depth node + 1"
  by (cases "border_box node")
     (auto simp: split_children_def QuadtreeNode_init_def Let_def split: prod.splits)

lemma children_list_split [simp]:
  "children_list (split img node) = split_children img node"
  by (cases node) (simp add: children_list_def split_def)

subsection \<open>The tree\<close>

record QuadTree =
  width :: nat
  height :: nat
  root_node :: QuadtreeNode
  max_depth :: int

text \<open>
  \<^verbatim>\<open>QuadTree.__build_tree\<close>. The third argument and the second result are
  \<^verbatim>\<open>self.__max_depth\<close> before and after the call. Each child is built by its own thread,
  which is joined before the call returns; here the children are built in list order.
  After \<^verbatim>\<open>split\<close> the attribute \<^verbatim>\<open>childrens\<close> is a list, so the loop over it cannot raise.
\<close>

function build_tree :: "Image \<Rightarrow> QuadtreeNode \<Rightarrow> int \<Rightarrow> QuadtreeNode \<times> int" where
  "build_tree img node md =
     (if depth node \<ge> MAX_DEPTH \<or> error node \<le> ERROR_THRESHOLD then
        (set_is_leaf True node, if depth node > md then depth node else md)
      else
        (let node' = split img node;
             (built, md') =
                fold (\<lambda>child (done, m).
                        let (child', m') = build_tree img child m in (done @ [child'], m'))
                     (children_list node') ([], md)
         in (set_childrens (Some built) node', md')))"
  by pat_completeness auto
termination
  by (relation "measure (\<lambda>(img, node, md). nat (MAX_DEPTH - depth node))")
     (auto dest: depth_split_children)

declare build_tree.simps [simp del]

text \<open>\<^verbatim>\<open>QuadTree.__init__\<close>: subscripting \<^verbatim>\<open>None\<close> in the node constructor raises TypeError.\<close>

definition QuadTree_init :: "Image \<Rightarrow> exn + QuadTree" where
  "QuadTree_init img =
     (case getbbox img of
        None \<Rightarrow> Inl TypeError
      | Some bb \<Rightarrow>
          let (r, md) = build_tree img (QuadtreeNode_init img bb 0) 0
          in Inr \<lparr>width = fst (img_size img), height = snd (img_size img),
                  root_node = r, max_depth = md\<rparr>)"

subsection \<open>Traversals\<close>

lemma size_child:
  "c \<in> set (children_list n) \<Longrightarrow> size c < size n"
proof (cases n)
  case (QuadtreeNode bb d cso lf ps ce col e)
  assume c: "c \<in> set (children_list n)"
  then obtain cs where cs: "cso = Some cs" "c \<in> set cs"
    using QuadtreeNode by (auto simp: children_list_def split: option.splits)
  have "size c \<le> size_list size cs"
    using cs(2) by (rule size_list_estimation') simp
  then show ?thesis using QuadtreeNode cs by simp
qed

text \<open>Every node of the subtree of a node, the node first (pre-order).\<close>

function all_nodes :: "QuadtreeNode \<Rightarrow> QuadtreeNode list" where
  "all_nodes n = n # concat (map all_nodes (children_list n))"
  by pat_completeness auto
termination
  by (relation "measure size") (auto simp: size_child)

declare all_nodes.simps [simp del]

text \<open>
  \<^verbatim>\<open>QuadTree.get_leaf_nodes_recursion\<close>: the list \<^verbatim>\<open>leaf_nodes\<close> it appends to is passed in
  and returned.
\<close>

function get_leaf_nodes_recursion ::
  "QuadtreeNode \<Rightarrow> int \<Rightarrow> QuadtreeNode list \<Rightarrow> QuadtreeNode list" where
  "get_leaf_nodes_recursion node d leaf_nodes =
     (if is_leaf node \<or> depth node = d then leaf_nodes @ [node]
      else (case childrens node of
              Some cs \<Rightarrow> fold (\<lambda>child acc. get_leaf_nodes_recursion child d acc) cs leaf_nodes
            | None \<Rightarrow> leaf_nodes))"
  by pat_completeness auto
termination
  by (relation "measure (\<lambda>(node, d, leaf_nodes). size node)")
     (auto simp: size_child children_list_def)

declare get_leaf_nodes_recursion.simps [simp del]

text \<open>\<^verbatim>\<open>QuadTree.get_leaf_nodes\<close>.\<close>

definition get_leaf_nodes :: "QuadTree \<Rightarrow> int \<Rightarrow> exn + QuadtreeNode list" where
  "get_leaf_nodes self d =
     (if d > max_depth self then Inl ValueError
      else Inr (get_leaf_nodes_recursion (root_node self) d []))"

text \<open>The half-open rectangle of a box, as a set of points of the plane.\<close>

definition region :: "box \<Rightarrow> (real \<times> real) set" where
  "region bb = (case bb of (left, upper, right, lower) \<Rightarrow>
                  {(x, y). left \<le> x \<and> x < right \<and> upper \<le> y \<and> y < lower})"

text \<open>
  The traversal as the specification words it: the pre-order sequence of the nodes, each
  with its ancestors from the root down, of which a node is kept when it is a leaf or at the
  requested depth and none of its ancestors is.
\<close>

function nodes_with_ancestors ::
  "QuadtreeNode list \<Rightarrow> QuadtreeNode \<Rightarrow> (QuadtreeNode list \<times> QuadtreeNode) list" where
  "nodes_with_ancestors anc n =
     (anc, n) # concat (map (nodes_with_ancestors (anc @ [n])) (children_list n))"
  by pat_completeness auto
termination
  by (relation "measure (\<lambda>(anc, n). size n)") (auto simp: size_child)

declare nodes_with_ancestors.simps [simp del]

definition stops_at :: "int \<Rightarrow> QuadtreeNode \<Rightarrow> bool" where
  "stops_at d n \<longleftrightarrow> is_leaf n \<or> depth n = d"

definition first_stops :: "int \<Rightarrow> QuadtreeNode \<Rightarrow> QuadtreeNode list" where
  "first_stops d r =
     map snd (filter (\<lambda>(anc, n). stops_at d n \<and> list_all (\<lambda>a. \<not> stops_at d a) anc)
                     (nodes_with_ancestors [] r))"


subsection \<open>The point index\<close>

text \<open>
  \<^verbatim>\<open>self.childrens[k].insert_point(point)\<close> mutates the child in place: \<open>with_child\<close> runs a
  call on child \<open>k\<close> and puts the child it returns back; an index out of range raises
  IndexError.
\<close>

definition append_point :: "Point \<Rightarrow> QuadtreeNode \<Rightarrow> QuadtreeNode" where
  "append_point point self = set_node_points (node_points self @ [point]) self"

definition with_child ::
  "QuadtreeNode \<Rightarrow> nat \<Rightarrow> (QuadtreeNode \<Rightarrow> exn + QuadtreeNode) \<Rightarrow> exn + QuadtreeNode" where
  "with_child self k f =
     (let cs = children_list self in
      if k < length cs then
        (case f (cs ! k) of
           Inl e \<Rightarrow> Inl e
         | Inr child' \<Rightarrow> Inr (set_childrens (Some (cs[k := child'])) self))
      else Inl IndexError)"

lemma with_child_cong [fundef_cong]:
  "self = self' \<Longrightarrow> k = k' \<Longrightarrow> (\<And>c. c \<in> set (children_list self') \<Longrightarrow> f c = g c)
   \<Longrightarrow> with_child self k f = with_child self' k' g"
  by (simp add: with_child_def Let_def)

text \<open>
  \<^verbatim>\<open>QuadtreeNode.insert_point\<close>. The first two branches \<^verbatim>\<open>return\<close> the recursive call;
  the last two call and fall through to \<^verbatim>\<open>self.node_points.append(point)\<close>.
\<close>

function insert_point :: "QuadtreeNode \<Rightarrow> Point \<Rightarrow> exn + QuadtreeNode" where
  "insert_point self point =
     (let cx = x_coordinate (node_center_point self);
          cy = y_coordinate (node_center_point self);
          x = x_coordinate point;
          y = y_coordinate point
      in
      if childrens self \<noteq> None then
        if x < cx \<and> y < cy then with_child self 0 (\<lambda>c. insert_point c point)
        else if x \<ge> cx \<and> y < cy then with_child self 1 (\<lambda>c. insert_point c point)
        else
          (case (if x < cx \<and> y \<ge> cy then with_child self 2 (\<lambda>c. insert_point c point)
                 else Inr self) of
             Inl e \<Rightarrow> Inl e
           | Inr self2 \<Rightarrow>
               (case (if x \<ge> cx \<and> y \<ge> cy then with_child self2 3 (\<lambda>c. insert_point c point)
                      else Inr self2) of
                  Inl e \<Rightarrow> Inl e
                | Inr self3 \<Rightarrow> Inr (append_point point self3)))
      else Inr (append_point point self))"
  by pat_completeness auto
termination
  apply (relation "measure (\<lambda>(self, point). size self)")
      apply (auto simp: size_child split: if_splits)
  done

declare insert_point.simps [simp del]


text \<open>
  \<^verbatim>\<open>QuadtreeNode.find_node\<close>. \<open>find_node_branch\<close> is its chain of \<^verbatim>\<open>if\<close>/\<^verbatim>\<open>elif\<close> tests:
  the index of the child it descends into. The entries of \<^verbatim>\<open>childrens\<close> are nodes, so the
  tests \<^verbatim>\<open>self.childrens[k] is not None\<close> hold. An empty or missing \<^verbatim>\<open>search_list\<close> is
  replaced by a new empty list.
\<close>

definition child_get :: "QuadtreeNode \<Rightarrow> nat \<Rightarrow> (QuadtreeNode \<Rightarrow> exn + 'a) \<Rightarrow> exn + 'a" where
  "child_get self k f =
     (let cs = children_list self in if k < length cs then f (cs ! k) else Inl IndexError)"

lemma child_get_cong [fundef_cong]:
  "self = self' \<Longrightarrow> k = k' \<Longrightarrow> (\<And>c. c \<in> set (children_list self') \<Longrightarrow> f c = g c)
   \<Longrightarrow> child_get self k f = child_get self' k' g"
  by (simp add: child_get_def Let_def)

definition find_node_branch :: "QuadtreeNode \<Rightarrow> Point \<Rightarrow> nat option" where
  "find_node_branch self point =
     (let cx = x_coordinate (node_center_point self);
          cy = y_coordinate (node_center_point self);
          x = x_coordinate point;
          y = y_coordinate point
      in
      if childrens self \<noteq> None then
        if x < cx \<and> y < cy then Some 0
        else if x \<ge> cx \<and> y < cy then Some 1
        else if x < cx \<and> y \<ge> cy then Some 2
        else if x \<ge> cx \<and> y \<ge> cy then Some 3
        else None
      else None)"

function find_node ::
  "QuadtreeNode \<Rightarrow> Point \<Rightarrow> QuadtreeNode list \<Rightarrow> exn + QuadtreeNode \<times> QuadtreeNode list" where
  "find_node self point search_list =
     (let search_list = (if search_list = [] then [] else search_list) @ [self] in
      case find_node_branch self point of
        Some k \<Rightarrow> child_get self k (\<lambda>c. find_node c point search_list)
      | None \<Rightarrow> Inr (self, search_list))"
  by pat_completeness auto
termination
  by (relation "measure (\<lambda>(self, point, search_list). size self)") (auto simp: size_child)

declare find_node.simps [simp del]

text \<open>
  \<^verbatim>\<open>remove_point\<close> mutates the node object that \<^verbatim>\<open>find_node\<close> returns, which is a node
  of the tree: \<open>at_found_node\<close> follows the descent of \<^verbatim>\<open>find_node\<close> and applies a change
  to the node it ends at.
\<close>

function at_found_node ::
  "(QuadtreeNode \<Rightarrow> exn + QuadtreeNode) \<Rightarrow> QuadtreeNode \<Rightarrow> Point \<Rightarrow> exn + QuadtreeNode" where
  "at_found_node change self point =
     (case find_node_branch self point of
        Some k \<Rightarrow> with_child self k (\<lambda>c. at_found_node change c point)
      | None \<Rightarrow> change self)"
  by pat_completeness auto
termination
  by (relation "measure (\<lambda>(change, self, point). size self)") (auto simp: size_child)

declare at_found_node.simps [simp del]

text \<open>
  \<^verbatim>\<open>list.remove(v)\<close> deletes the first entry \<^verbatim>\<open>p\<close> with \<^verbatim>\<open>p == v\<close>, which calls
  \<^verbatim>\<open>Point.__eq__\<close>, and raises ValueError when there is none. (It also accepts the entry
  that is the object \<^verbatim>\<open>v\<close> itself; \<^verbatim>\<open>remove_point\<close> passes an entry that is equal to
  itself by \<^verbatim>\<open>__eq__\<close>, so the first entry accepted is the same.)
\<close>

fun list_remove :: "Point \<Rightarrow> Point list \<Rightarrow> exn + Point list" where
  "list_remove v [] = Inl ValueError"
| "list_remove v (p # ps) =
     (if Point_eq p v then Inr ps
      else (case list_remove v ps of Inl e \<Rightarrow> Inl e | Inr ps' \<Rightarrow> Inr (p # ps')))"

lemma length_list_remove:
  "list_remove v ps = Inr ps' \<Longrightarrow> Suc (length ps') = length ps"
  by (induction ps arbitrary: ps') (auto split: if_splits sum.splits)

text \<open>
  The loop \<^verbatim>\<open>for point in current_node.node_points\<close> of \<^verbatim>\<open>remove_point\<close>, which removes
  from the list it iterates over: the iterator holds an index \<open>i\<close> into the current
  list and stops when the index reaches its length.
\<close>

function remove_loop :: "nat \<Rightarrow> Point list \<Rightarrow> Point \<Rightarrow> exn + Point list" where
  "remove_loop i points delete_point =
     (if i < length points then
        (if Point_eq (points ! i) delete_point then
           (case list_remove (points ! i) points of
              Inl e \<Rightarrow> Inl e
            | Inr points' \<Rightarrow> remove_loop (i + 1) points' delete_point)
         else remove_loop (i + 1) points delete_point)
      else Inr points)"
  by pat_completeness auto
termination
  by (relation "measure (\<lambda>(i, points, delete_point). length points - i)")
     (auto dest: length_list_remove)

declare remove_loop.simps [simp del]

definition remove_point :: "QuadtreeNode \<Rightarrow> Point \<Rightarrow> exn + QuadtreeNode" where
  "remove_point self delete_point =
     at_found_node
       (\<lambda>current_node.
          case remove_loop 0 (node_points current_node) delete_point of
            Inl e \<Rightarrow> Inl e
          | Inr points' \<Rightarrow> Inr (set_node_points points' current_node))
       self delete_point"

definition find_node_contain_point :: "QuadtreeNode \<Rightarrow> Point \<Rightarrow> exn + QuadtreeNode" where
  "find_node_contain_point self search_point =
     (case find_node self search_point [] of Inl e \<Rightarrow> Inl e | Inr (current_node, _) \<Rightarrow> Inr current_node)"

subsection \<open>Rendering and the entry point\<close>

text \<open>
  \<^verbatim>\<open>create_image\<close> of \<^verbatim>\<open>work_with_images.py\<close>. A picture is the size of the canvas and
  the rectangles drawn on it, in order: the box, the fill colour, and whether a black
  outline is drawn.
\<close>

type_synonym rectangle = "box \<times> (int \<times> int \<times> int) \<times> bool"
type_synonym picture = "(nat \<times> nat) \<times> rectangle list"

definition create_image :: "QuadTree \<Rightarrow> int \<Rightarrow> bool \<Rightarrow> exn + picture" where
  "create_image quadtree level borders =
     (let background = ((0, 0, real (width quadtree), real (height quadtree)), (0, 0, 0), False) in
      case get_leaf_nodes quadtree level of
        Inl e \<Rightarrow> Inl e
      | Inr leaf_nodes \<Rightarrow>
          Inr ((width quadtree, height quadtree),
               background # map (\<lambda>node. (border_box node, average_color node, borders)) leaf_nodes))"

text \<open>
  \<^verbatim>\<open>compression_start\<close>. The argument is the image that \<^verbatim>\<open>Image.open(file)\<close> returns; the
  result is the list of the files saved and the exception raised, if any.
  \<^verbatim>\<open>range(MAX_DEPTH + 1)\<close> is \<^term>\<open>[0..MAX_DEPTH]\<close>.
\<close>

datatype output_file = ImageFile picture | GifFile "picture list"

fun gif_frames :: "QuadTree \<Rightarrow> bool \<Rightarrow> int list \<Rightarrow> picture list \<Rightarrow> exn + picture list" where
  "gif_frames quadtree borders [] frames = Inr frames"
| "gif_frames quadtree borders (v # rest) frames =
     (case create_image quadtree v borders of
        Inl e \<Rightarrow> Inl e
      | Inr new_img \<Rightarrow> gif_frames quadtree borders rest (frames @ [new_img]))"

definition compression_start ::
  "Image \<Rightarrow> int \<Rightarrow> bool \<Rightarrow> bool \<Rightarrow> output_file list \<times> exn option" where
  "compression_start original_image level borders gif =
     (case QuadTree_init original_image of
        Inl e \<Rightarrow> ([], Some e)
      | Inr quadtree \<Rightarrow>
          (case create_image quadtree level borders of
             Inl e \<Rightarrow> ([], Some e)
           | Inr result_image \<Rightarrow>
               if gif then
                 (case gif_frames quadtree borders [0..MAX_DEPTH] [] of
                    Inl e \<Rightarrow> ([ImageFile result_image], Some e)
                  | Inr frames \<Rightarrow> ([ImageFile result_image, GifFile frames], None))
               else ([ImageFile result_image], None)))"

subsection \<open>Notions used in the proofs\<close>

text \<open>
  The midpoint of a box and its four quadrants; the test of \<^verbatim>\<open>__build_tree\<close>; the shape of
  a node that \<^verbatim>\<open>__build_tree\<close> has finished (\<open>built\<close>) and of one that the constructor has
  just made (\<open>fresh\<close>); the traversal without its accumulator (\<open>frontier\<close>); the depths
  of the leaves.
\<close>

definition box_center :: "box \<Rightarrow> Point" where
  "box_center bb = (case bb of (left, upper, right, lower) \<Rightarrow>
     \<lparr>x_coordinate = left + (right - left) / 2, y_coordinate = upper + (lower - upper) / 2\<rparr>)"

definition quadrants :: "box \<Rightarrow> box list" where
  "quadrants bb = (case bb of (left, upper, right, lower) \<Rightarrow>
     let cx = left + (right - left) / 2; cy = upper + (lower - upper) / 2
     in [(left, upper, cx, cy), (cx, upper, right, cy), (left, cy, cx, lower), (cx, cy, right, lower)])"

definition stop_rule :: "QuadtreeNode \<Rightarrow> bool" where
  "stop_rule n \<longleftrightarrow> depth n \<ge> MAX_DEPTH \<or> error n \<le> ERROR_THRESHOLD"

function built :: "QuadtreeNode \<Rightarrow> bool" where
  "built n \<longleftrightarrow>
     node_center_point n = box_center (border_box n) \<and>
     (case childrens n of
        None \<Rightarrow> is_leaf n \<and> stop_rule n
      | Some cs \<Rightarrow>
          \<not> is_leaf n \<and> \<not> stop_rule n \<and> map border_box cs = quadrants (border_box n) \<and>
          (\<forall>c\<in>set cs. depth c = depth n + 1 \<and> built c))"
  by pat_completeness auto
termination
  by (relation "measure size") (auto simp: size_child children_list_def)

declare built.simps [simp del]

definition fresh :: "QuadtreeNode \<Rightarrow> bool" where
  "fresh n \<longleftrightarrow> childrens n = None \<and> \<not> is_leaf n \<and> node_center_point n = box_center (border_box n)"

function frontier :: "int \<Rightarrow> QuadtreeNode \<Rightarrow> QuadtreeNode list" where
  "frontier d n = (if stops_at d n then [n] else concat (map (frontier d) (children_list n)))"
  by pat_completeness auto
termination
  by (relation "measure (\<lambda>(d, n). size n)") (auto simp: size_child)

declare frontier.simps [simp del]

definition leaf_depths :: "QuadtreeNode \<Rightarrow> int list" where
  "leaf_depths n = map depth (filter is_leaf (all_nodes n))"

subsection \<open>Example images\<close>

text \<open>
  \<open>flat_hist n (r, g, b)\<close> is the histogram of \<open>n\<close> pixels of the one colour \<open>(r, g, b)\<close>.
  \<open>flat_image\<close> is a uniform 8 by 8 image; \<open>black_image\<close> is entirely zero, so it has no
  bounding box; \<open>margin_image\<close> is 4 by 4 with a uniform 2 by 2 centre and a zero margin;
  \<open>checker_image\<close> is 2 by 2 with the colours 200 and 100 on its two diagonals. The trees are
  the values the construction returns on them.
\<close>

definition bin_hist :: "nat \<Rightarrow> nat \<Rightarrow> nat list" where
  "bin_hist k n = replicate k 0 @ [n] @ replicate (255 - k) 0"

definition flat_hist :: "nat \<Rightarrow> nat \<times> nat \<times> nat \<Rightarrow> nat list" where
  "flat_hist n c = (case c of (r, g, b) \<Rightarrow> bin_hist r n @ bin_hist g n @ bin_hist b n)"

definition two_bin_hist :: "nat list" where
  "two_bin_hist = replicate 100 0 @ [2] @ replicate 99 0 @ [2] @ replicate 55 0"

definition flat_image :: Image where
  "flat_image = \<lparr>img_size = (8, 8), getbbox = Some (0, 0, 8, 8),
                  crop_histogram = (\<lambda>bb. flat_hist 64 (10, 20, 30))\<rparr>"

definition black_image :: Image where
  "black_image = \<lparr>img_size = (8, 8), getbbox = None,
                   crop_histogram = (\<lambda>bb. flat_hist 64 (0, 0, 0))\<rparr>"

definition margin_image :: Image where
  "margin_image = \<lparr>img_size = (4, 4), getbbox = Some (1, 1, 3, 3),
                    crop_histogram = (\<lambda>bb. flat_hist 4 (200, 200, 200))\<rparr>"

definition checker_image :: Image where
  "checker_image = \<lparr>img_size = (2, 2), getbbox = Some (0, 0, 2, 2),
     crop_histogram = (\<lambda>bb.
       if bb = (0, 0, 2, 2) then two_bin_hist @ two_bin_hist @ two_bin_hist
       else if bb = (0, 0, 1, 1) \<or> bb = (1, 1, 2, 2) then flat_hist 1 (200, 200, 200)
       else flat_hist 1 (100, 100, 100))\<rparr>"

definition leaf_node :: "box \<Rightarrow> int \<Rightarrow> int \<times> int \<times> int \<Rightarrow> QuadtreeNode" where
  "leaf_node bb d c = QuadtreeNode bb d None True [] (box_center bb) c 0"

definition flat_tree :: QuadTree where
  "flat_tree = \<lparr>width = 8, height = 8, root_node = leaf_node (0, 0, 8, 8) 0 (10, 20, 30),
                 max_depth = 0\<rparr>"

definition margin_tree :: QuadTree where
  "margin_tree = \<lparr>width = 4, height = 4, root_node = leaf_node (1, 1, 3, 3) 0 (200, 200, 200),
                   max_depth = 0\<rparr>"

definition checker_root :: QuadtreeNode where
  "checker_root =
     QuadtreeNode (0, 0, 2, 2) 0
       (Some [leaf_node (0, 0, 1, 1) 1 (200, 200, 200), leaf_node (1, 0, 2, 1) 1 (100, 100, 100),
              leaf_node (0, 1, 1, 2) 1 (100, 100, 100), leaf_node (1, 1, 2, 2) 1 (200, 200, 200)])
       False [] \<lparr>x_coordinate = 1, y_coordinate = 1\<rparr> (150, 150, 150) (9999 / 200)"

definition checker_tree :: QuadTree where
  "checker_tree = \<lparr>width = 2, height = 2, root_node = checker_root, max_depth = 1\<rparr>"

section \<open>Colour statistics: the weighted average\<close>

lemma sum_list_enumerate:
  fixes f :: "nat \<Rightarrow> 'b \<Rightarrow> 'a::comm_monoid_add"
  shows "sum_list (map (\<lambda>(i, x). f i x) (enumerate n xs)) = (\<Sum>i<length xs. f (n + i) (xs ! i))"
proof (induction xs arbitrary: n)
  case Nil
  show ?case by simp
next
  case (Cons a xs)
  have "(\<Sum>i<length (a # xs). f (n + i) ((a # xs) ! i)) =
        f n a + (\<Sum>i<length xs. f (n + Suc i) (xs ! i))"
    by (simp add: sum.lessThan_Suc_shift del: sum.lessThan_Suc)
  with Cons.IH [of "Suc n"] show ?case by simp
qed

lemma sum_list_nth: "sum_list xs = (\<Sum>i<length xs. xs ! i)"
  by (simp add: sum_list_sum_nth atLeast0LessThan)

lemma weighted_average_sums:
  "weighted_average bins =
     (let total = (\<Sum>i<length bins. bins ! i);
          v = real (\<Sum>i<length bins. i * bins ! i) / real total
      in if total = 0 then (0, 0)
         else (v, sqrt ((\<Sum>i<length bins. real (bins ! i) * (v - real i)\<^sup>2) / real total)))"
proof -
  have a: "sum_list (map (\<lambda>(i, x). i * x) (enumerate 0 bins)) = (\<Sum>i<length bins. i * bins ! i)"
    by (simp add: sum_list_enumerate)
  have b: "sum_list (map (\<lambda>(i, x). real x * (v - real i)\<^sup>2) (enumerate 0 bins))
           = (\<Sum>i<length bins. real (bins ! i) * (v - real i)\<^sup>2)" for v
    by (simp add: sum_list_enumerate)
  have c: "sum_list bins = (\<Sum>i<length bins. bins ! i)"
    by (rule sum_list_nth)
  show ?thesis
    unfolding weighted_average_def Let_def a b c by simp
qed

lemma sum_single:
  fixes f :: "nat \<Rightarrow> 'a::comm_monoid_add"
  assumes "k < n" "\<And>i. i < n \<Longrightarrow> i \<noteq> k \<Longrightarrow> f i = 0"
  shows "(\<Sum>i<n. f i) = f k"
proof -
  have "(\<Sum>i<n. f i) = (\<Sum>i\<in>{k}. f i)"
    using assms by (intro sum.mono_neutral_right) auto
  then show ?thesis by simp
qed

lemma weighted_average_concentrated:
  assumes "k < length bins" "\<forall>i<length bins. i \<noteq> k \<longrightarrow> bins ! i = 0" "0 < bins ! k"
  shows "weighted_average bins = (real k, 0)"
proof -
  have t: "(\<Sum>i<length bins. bins ! i) = bins ! k"
    using assms by (intro sum_single) auto
  have s: "(\<Sum>i<length bins. i * bins ! i) = k * bins ! k"
    using assms by (intro sum_single) auto
  have e: "(\<Sum>i<length bins. real (bins ! i) * (real k - real i)\<^sup>2) = 0"
    using assms by (intro sum.neutral) auto
  show ?thesis using assms(3) by (simp add: weighted_average_sums t s e)
qed

text \<open>
  Claim C6. For a sequence of counts (of any length, so also of length 256),
  \<open>weighted_average\<close> returns \<open>(0, 0)\<close> when the counts sum to 0, and otherwise the value
  \<open>\<Sum> i * bins[i] / total\<close> and the error \<open>sqrt (\<Sum> bins[i] * (value - i)\<^sup>2 / total)\<close>; when all
  the mass is at bin \<open>k\<close> it returns value \<open>k\<close> and error \<open>0\<close>.
\<close>

theorem weighted_average_formula:
  "weighted_average bins =
     (let total = (\<Sum>i<length bins. bins ! i);
          v = real (\<Sum>i<length bins. i * bins ! i) / real total
      in if total = 0 then (0, 0)
         else (v, sqrt ((\<Sum>i<length bins. real (bins ! i) * (v - real i)\<^sup>2) / real total)))
   \<and> (k < length bins \<and> (\<forall>i<length bins. i \<noteq> k \<longrightarrow> bins ! i = 0) \<and> 0 < bins ! k
        \<longrightarrow> weighted_average bins = (real k, 0))"
  using weighted_average_sums [of bins] weighted_average_concentrated [of k bins] by blast

theorem weighted_average_formula_witness:
  "length (replicate 7 0 @ [5] @ replicate 248 (0::nat)) = 256
   \<and> weighted_average (replicate 7 0 @ [5] @ replicate 248 0) = (7, 0)
   \<and> weighted_average (replicate 256 0) = (0, 0)"
proof -
  let ?h = "replicate 7 0 @ [5] @ replicate 248 (0::nat)"
  let ?z = "replicate 256 (0::nat)"
  have h: "7 < length ?h \<and> (\<forall>i<length ?h. i \<noteq> 7 \<longrightarrow> ?h ! i = 0) \<and> 0 < ?h ! 7"
    by (auto simp: nth_append nth_Cons')
  have 1: "weighted_average ?h = (7, 0)"
    using mp [OF conjunct2 [OF weighted_average_formula [of ?h 7]] h] by simp
  have z: "(\<Sum>i<length ?z. ?z ! i) = 0"
    unfolding sum_list_nth [symmetric] by simp
  have 2: "weighted_average ?z = (0, 0)"
    using conjunct1 [OF weighted_average_formula [of ?z 0]] unfolding z Let_def by simp
  show ?thesis using 1 2 by simp
qed

section \<open>Construction\<close>

lemma set_is_leaf_sel [simp]:
  "border_box (set_is_leaf v n) = border_box n"
  "depth (set_is_leaf v n) = depth n"
  "childrens (set_is_leaf v n) = childrens n"
  "is_leaf (set_is_leaf v n) = v"
  "node_points (set_is_leaf v n) = node_points n"
  "node_center_point (set_is_leaf v n) = node_center_point n"
  "average_color (set_is_leaf v n) = average_color n"
  "error (set_is_leaf v n) = error n"
  by (cases n; simp)+

lemma set_childrens_sel [simp]:
  "border_box (set_childrens cs n) = border_box n"
  "depth (set_childrens cs n) = depth n"
  "childrens (set_childrens cs n) = cs"
  "is_leaf (set_childrens cs n) = is_leaf n"
  "node_points (set_childrens cs n) = node_points n"
  "node_center_point (set_childrens cs n) = node_center_point n"
  "average_color (set_childrens cs n) = average_color n"
  "error (set_childrens cs n) = error n"
  by (cases n; simp)+

lemma set_node_points_sel [simp]:
  "border_box (set_node_points ps n) = border_box n"
  "depth (set_node_points ps n) = depth n"
  "childrens (set_node_points ps n) = childrens n"
  "is_leaf (set_node_points ps n) = is_leaf n"
  "node_points (set_node_points ps n) = ps"
  "node_center_point (set_node_points ps n) = node_center_point n"
  "average_color (set_node_points ps n) = average_color n"
  "error (set_node_points ps n) = error n"
  by (cases n; simp)+

lemma QuadtreeNode_init_sel [simp]:
  "border_box (QuadtreeNode_init img bb d) = bb"
  "depth (QuadtreeNode_init img bb d) = d"
  "childrens (QuadtreeNode_init img bb d) = None"
  "is_leaf (QuadtreeNode_init img bb d) = False"
  "node_points (QuadtreeNode_init img bb d) = []"
  "node_center_point (QuadtreeNode_init img bb d) = box_center bb"
  "average_color (QuadtreeNode_init img bb d) = fst (color_from_histogram (crop_histogram img bb))"
  "error (QuadtreeNode_init img bb d) = snd (color_from_histogram (crop_histogram img bb))"
  by (cases bb; simp add: QuadtreeNode_init_def box_center_def Let_def split: prod.splits)+

lemma fresh_init [simp]: "fresh (QuadtreeNode_init img bb d)"
  by (simp add: fresh_def)

lemma split_sel [simp]:
  "border_box (split img n) = border_box n"
  "depth (split img n) = depth n"
  "childrens (split img n) = Some (split_children img n)"
  "is_leaf (split img n) = is_leaf n"
  "node_points (split img n) = node_points n"
  "node_center_point (split img n) = node_center_point n"
  "average_color (split img n) = average_color n"
  "error (split img n) = error n"
  by (simp_all add: split_def)

lemma stop_rule_set [simp]:
  "stop_rule (set_is_leaf v n) = stop_rule n"
  "stop_rule (set_childrens cs n) = stop_rule n"
  "stop_rule (set_node_points ps n) = stop_rule n"
  "stop_rule (split img n) = stop_rule n"
  by (simp_all add: stop_rule_def)

lemma build_tree_stop:
  "stop_rule node \<Longrightarrow>
   build_tree img node md = (set_is_leaf True node, max md (depth node))"
  by (simp add: build_tree.simps max_def stop_rule_def)

lemma split_children_4:
  "\<exists>c0 c1 c2 c3. split_children img node = [c0, c1, c2, c3]"
  by (cases "border_box node") (simp add: split_children_def Let_def)

lemma fresh_split_children:
  "c \<in> set (split_children img node) \<Longrightarrow> fresh c"
  by (cases "border_box node") (auto simp: split_children_def Let_def)

lemma box_split_children:
  "node_center_point node = box_center (border_box node) \<Longrightarrow>
   map border_box (split_children img node) = quadrants (border_box node)"
  by (cases "border_box node") (simp add: split_children_def Let_def quadrants_def box_center_def)

lemma build_tree_split:
  assumes "\<not> stop_rule node"
    and "split_children img node = [c0, c1, c2, c3]"
  shows "build_tree img node md =
     (set_childrens
        (Some [fst (build_tree img c0 md),
               fst (build_tree img c1 (snd (build_tree img c0 md))),
               fst (build_tree img c2 (snd (build_tree img c1 (snd (build_tree img c0 md))))),
               fst (build_tree img c3 (snd (build_tree img c2 (snd (build_tree img c1 (snd (build_tree img c0 md)))))))])
        (split img node),
      snd (build_tree img c3 (snd (build_tree img c2 (snd (build_tree img c1 (snd (build_tree img c0 md))))))))"
  using assms unfolding stop_rule_def
  by (subst build_tree.simps) (simp add: Let_def split: prod.splits)

lemma build_tree_keeps:
  "border_box (fst (build_tree img node md)) = border_box node"
  "depth (fst (build_tree img node md)) = depth node"
  "error (fst (build_tree img node md)) = error node"
  "node_center_point (fst (build_tree img node md)) = node_center_point node"
  "node_points (fst (build_tree img node md)) = node_points node"
proof -
  obtain c0 c1 c2 c3 where c: "split_children img node = [c0, c1, c2, c3]"
    using split_children_4 by blast
  show "border_box (fst (build_tree img node md)) = border_box node"
    "depth (fst (build_tree img node md)) = depth node"
    "error (fst (build_tree img node md)) = error node"
    "node_center_point (fst (build_tree img node md)) = node_center_point node"
    "node_points (fst (build_tree img node md)) = node_points node"
    by (cases "stop_rule node"; simp add: build_tree_stop build_tree_split [OF _ c])+
qed

lemma build_tree_built:
  "fresh node \<Longrightarrow> built (fst (build_tree img node md))"
proof (induction img node md rule: build_tree.induct)
  case (1 img node md)
  show ?case
  proof (cases "stop_rule node")
    case True
    with "1.prems" show ?thesis
      by (simp add: build_tree_stop built.simps fresh_def)
  next
    case False
    obtain c0 c1 c2 c3 where c: "split_children img node = [c0, c1, c2, c3]"
      using split_children_4 by blast
    have ih: "built (fst (build_tree img ch m))" if "ch \<in> set [c0, c1, c2, c3]" for ch m
      using "1.IH" [of "split img node" ch m] False that fresh_split_children [of ch img node]
      by (simp add: stop_rule_def c)
    have d: "depth ch = depth node + 1" if "ch \<in> set [c0, c1, c2, c3]" for ch
      using depth_split_children [of ch img node] that by (simp add: c)
    have b: "map border_box [c0, c1, c2, c3] = quadrants (border_box node)"
      using box_split_children [of node img] "1.prems" by (simp add: fresh_def c)
    show ?thesis
      using False "1.prems" ih d b
      by (simp add: build_tree_split [OF False c] built.simps [of "set_childrens _ _"]
          build_tree_keeps fresh_def)
  qed
qed

subsection \<open>Geometry of the quadrants\<close>

lemma quadrants_cover: "(\<Union>q\<in>set (quadrants bb). region q) = region bb"
  by (cases bb) (auto simp: quadrants_def region_def Let_def; argo)

lemma quadrants_disjoint: "sorted_wrt (\<lambda>a b. region a \<inter> region b = {}) (quadrants bb)"
  by (cases bb) (auto simp: quadrants_def region_def Let_def; argo?)

lemma length_quadrants [simp]: "length (quadrants bb) = 4"
  by (cases bb) (simp add: quadrants_def Let_def)

subsection \<open>Nodes of a built tree\<close>

lemma all_nodes_self: "n \<in> set (all_nodes n)"
  by (subst all_nodes.simps) simp

lemma all_nodes_child:
  "c \<in> set (children_list n) \<Longrightarrow> m \<in> set (all_nodes c) \<Longrightarrow> m \<in> set (all_nodes n)"
  by (subst all_nodes.simps) auto

lemma all_nodes_cases:
  "m \<in> set (all_nodes n) \<Longrightarrow> m = n \<or> (\<exists>c\<in>set (children_list n). m \<in> set (all_nodes c))"
  by (subst (asm) all_nodes.simps) auto

lemma built_child:
  "built n \<Longrightarrow> c \<in> set (children_list n) \<Longrightarrow> built c \<and> depth c = depth n + 1 \<and> \<not> stop_rule n"
  by (subst (asm) built.simps) (auto simp: children_list_def split: option.splits)

lemma built_nodes: "built n \<Longrightarrow> m \<in> set (all_nodes n) \<Longrightarrow> built m"
proof (induction n rule: all_nodes.induct)
  case (1 n)
  from all_nodes_cases [OF "1.prems"(2)] show ?case
  proof
    assume "m = n" with "1.prems" show ?thesis by simp
  next
    assume "\<exists>c\<in>set (children_list n). m \<in> set (all_nodes c)"
    then obtain c where c: "c \<in> set (children_list n)" "m \<in> set (all_nodes c)" by blast
    with "1.IH" [of c] built_child [OF "1.prems"(1) c(1)] show ?thesis by simp
  qed
qed

lemma built_depth_le:
  "built n \<Longrightarrow> depth n \<le> MAX_DEPTH \<Longrightarrow> m \<in> set (all_nodes n) \<Longrightarrow>
   depth n \<le> depth m \<and> depth m \<le> MAX_DEPTH"
proof (induction n rule: all_nodes.induct)
  case (1 n)
  from all_nodes_cases [OF "1.prems"(3)] show ?case
  proof
    assume "m = n" with "1.prems" show ?thesis by simp
  next
    assume "\<exists>c\<in>set (children_list n). m \<in> set (all_nodes c)"
    then obtain c where c: "c \<in> set (children_list n)" "m \<in> set (all_nodes c)" by blast
    have bc: "built c" "depth c = depth n + 1" "\<not> stop_rule n"
      using built_child [OF "1.prems"(1) c(1)] by simp_all
    then have "depth c \<le> MAX_DEPTH" by (simp add: stop_rule_def)
    with "1.IH" [OF c(1) bc(1) _ c(2)] bc(2) show ?thesis by simp
  qed
qed

lemma built_has_leaf: "built n \<Longrightarrow> \<exists>m\<in>set (all_nodes n). is_leaf m"
proof (induction n rule: all_nodes.induct)
  case (1 n)
  show ?case
  proof (cases "childrens n")
    case None
    with "1.prems" have "is_leaf n" by (subst (asm) built.simps) simp
    then show ?thesis using all_nodes_self by blast
  next
    case (Some cs)
    with "1.prems" have "length cs = 4"
      by (subst (asm) built.simps) (auto dest: arg_cong [where f = length])
    then obtain c where c: "c \<in> set (children_list n)"
      using Some by (cases cs) (auto simp: children_list_def)
    from "1.IH" [OF c] built_child [OF "1.prems" c] all_nodes_child [OF c]
    show ?thesis by blast
  qed
qed

subsection \<open>The traversal\<close>

lemma fold_append_concat: "fold (\<lambda>c acc. acc @ g c) cs acc = acc @ concat (map g cs)"
  by (induction cs arbitrary: acc) simp_all

lemma recursion_frontier: "get_leaf_nodes_recursion n d acc = acc @ frontier d n"
proof (induction n arbitrary: acc rule: all_nodes.induct)
  case (1 n)
  show ?case
  proof (cases "stops_at d n")
    case True
    then show ?thesis
      by (simp add: get_leaf_nodes_recursion.simps [of n] frontier.simps [of d n] stops_at_def)
  next
    case False
    have "fold (\<lambda>child acc. get_leaf_nodes_recursion child d acc) (children_list n) acc
          = fold (\<lambda>c acc. acc @ frontier d c) (children_list n) acc"
      by (rule fold_cong) (simp_all add: "1.IH")
    with False show ?thesis
      by (simp add: get_leaf_nodes_recursion.simps [of n] frontier.simps [of d n] stops_at_def
          fold_append_concat children_list_def split: option.splits)
  qed
qed

lemma ancestors_extend:
  "(a, m) \<in> set (nodes_with_ancestors anc n) \<Longrightarrow> \<exists>rest. a = anc @ rest"
proof (induction anc n rule: nodes_with_ancestors.induct)
  case (1 anc n)
  from "1.prems" show ?case
  proof (subst (asm) nodes_with_ancestors.simps, simp, elim disjE bexE)
    fix c assume "c \<in> set (children_list n)" "(a, m) \<in> set (nodes_with_ancestors (anc @ [n]) c)"
    with "1.IH" show ?thesis by fastforce
  qed simp
qed

lemma filter_concat_map:
  "map g (filter P (concat (map f cs))) = concat (map (\<lambda>c. map g (filter P (f c))) cs)"
  by (induction cs) simp_all

lemma first_stops_frontier:
  "list_all (\<lambda>a. \<not> stops_at d a) anc \<Longrightarrow>
   map snd (filter (\<lambda>(anc, n). stops_at d n \<and> list_all (\<lambda>a. \<not> stops_at d a) anc)
                   (nodes_with_ancestors anc n)) = frontier d n"
proof (induction anc n rule: nodes_with_ancestors.induct)
  case (1 anc n)
  let ?P = "\<lambda>(anc, n). stops_at d n \<and> list_all (\<lambda>a. \<not> stops_at d a) anc"
  show ?case
  proof (cases "stops_at d n")
    case True
    have "\<not> ?P p" if "c \<in> set (children_list n)" "p \<in> set (nodes_with_ancestors (anc @ [n]) c)"
      for c p
    proof -
      obtain a m where p: "p = (a, m)" by (cases p)
      with that ancestors_extend [of a m "anc @ [n]" c] obtain rest where "a = (anc @ [n]) @ rest"
        by blast
      with True p show ?thesis by simp
    qed
    then have "filter ?P (concat (map (nodes_with_ancestors (anc @ [n])) (children_list n))) = []"
      by (auto simp: filter_empty_conv)
    with True "1.prems" show ?thesis
      by (subst nodes_with_ancestors.simps) (simp add: frontier.simps [of d n])
  next
    case False
    have "map snd (filter ?P (nodes_with_ancestors (anc @ [n]) c)) = frontier d c"
      if "c \<in> set (children_list n)" for c
      using "1.IH" [OF that] "1.prems" False by simp
    then have "concat (map (\<lambda>c. map snd (filter ?P (nodes_with_ancestors (anc @ [n]) c)))
                 (children_list n)) = concat (map (frontier d) (children_list n))"
      by (simp cong: map_cong)
    with False show ?thesis
      by (subst nodes_with_ancestors.simps)
         (simp add: frontier.simps [of d n] filter_concat_map)
  qed
qed

lemma sorted_wrt_concat_map:
  assumes "sorted_wrt Q cs" "\<And>c. c \<in> set cs \<Longrightarrow> sorted_wrt P (f c)"
    "\<And>c c' x y. c \<in> set cs \<Longrightarrow> c' \<in> set cs \<Longrightarrow> Q c c' \<Longrightarrow>
       x \<in> set (f c) \<Longrightarrow> y \<in> set (f c') \<Longrightarrow> P x y"
  shows "sorted_wrt P (concat (map f cs))"
  using assms
proof (induction cs)
  case Nil
  show ?case by simp
next
  case (Cons a cs)
  have 1: "sorted_wrt P (f a)" using Cons.prems(2) by simp
  have 2: "sorted_wrt P (concat (map f cs))"
  proof (rule Cons.IH)
    show "sorted_wrt Q cs" using Cons.prems(1) by simp
    show "sorted_wrt P (f c)" if "c \<in> set cs" for c using Cons.prems(2) that by simp
    show "P x y" if "c \<in> set cs" "c' \<in> set cs" "Q c c'" "x \<in> set (f c)" "y \<in> set (f c')"
      for c c' x y
      using Cons.prems(3) [of c c' x y] that by simp
  qed
  have 3: "P x y" if "x \<in> set (f a)" "c' \<in> set cs" "y \<in> set (f c')" for x y c'
    using Cons.prems(1) Cons.prems(3) [of a c' x y] that by simp
  show ?case using 1 2 3 by (auto simp: sorted_wrt_append)
qed

lemma built_children:
  assumes "built n" "\<not> is_leaf n"
  shows "map border_box (children_list n) = quadrants (border_box n)"
  using assms by (subst (asm) built.simps) (auto simp: children_list_def split: option.splits)

lemma frontier_cover:
  "built n \<Longrightarrow>
   (\<Union>m\<in>set (frontier d n). region (border_box m)) = region (border_box n) \<and>
   sorted_wrt (\<lambda>a b. region (border_box a) \<inter> region (border_box b) = {}) (frontier d n)"
proof (induction n rule: all_nodes.induct)
  case (1 n)
  let ?R = "\<lambda>m. region (border_box m)"
  let ?D = "\<lambda>a b. ?R a \<inter> ?R b = {}"
  show ?case
  proof (cases "stops_at d n")
    case True
    then show ?thesis by (simp add: frontier.simps [of d n])
  next
    case False
    then have nl: "\<not> is_leaf n" by (simp add: stops_at_def)
    have q: "map border_box (children_list n) = quadrants (border_box n)"
      using built_children [OF "1.prems" nl] .
    have ih: "(\<Union>m\<in>set (frontier d c). ?R m) = ?R c \<and> sorted_wrt ?D (frontier d c)"
      if "c \<in> set (children_list n)" for c
      using "1.IH" [OF that] built_child [OF "1.prems" that] by simp
    have fr: "frontier d n = concat (map (frontier d) (children_list n))"
      using False by (simp add: frontier.simps [of d n])
    have "(\<Union>m\<in>set (frontier d n). ?R m) = (\<Union>c\<in>set (children_list n). ?R c)"
      using ih by (auto simp: fr)
    also have "\<dots> = (\<Union>q\<in>set (map border_box (children_list n)). region q)"
      by simp
    also have "\<dots> = ?R n"
      unfolding q by (rule quadrants_cover)
    finally have cover: "(\<Union>m\<in>set (frontier d n). ?R m) = ?R n" .
    have "sorted_wrt (\<lambda>a b. region a \<inter> region b = {}) (map border_box (children_list n))"
      unfolding q by (rule quadrants_disjoint)
    then have qd: "sorted_wrt ?D (children_list n)"
      by (simp add: sorted_wrt_map)
    have "sorted_wrt ?D (concat (map (frontier d) (children_list n)))"
    proof (rule sorted_wrt_concat_map [OF qd])
      fix c assume "c \<in> set (children_list n)"
      then show "sorted_wrt ?D (frontier d c)" using ih by simp
    next
      fix c c' x y
      assume c: "c \<in> set (children_list n)" "c' \<in> set (children_list n)"
        and cc: "?D c c'" and x: "x \<in> set (frontier d c)" and y: "y \<in> set (frontier d c')"
      have "?R x \<subseteq> ?R c" "?R y \<subseteq> ?R c'" using ih c x y by blast+
      with cc show "?D x y" by blast
    qed
    with cover show ?thesis by (simp add: fr)
  qed
qed

subsection \<open>The deepest leaf\<close>

lemma build_tree_max:
  "fresh node \<Longrightarrow>
   snd (build_tree img node md) = fold max (leaf_depths (fst (build_tree img node md))) md"
proof (induction img node md rule: build_tree.induct)
  case (1 img node md)
  show ?case
  proof (cases "stop_rule node")
    case True
    have "children_list (set_is_leaf True node) = []"
      using "1.prems" by (simp add: children_list_def fresh_def)
    then have "leaf_depths (set_is_leaf True node) = [depth node]"
      by (simp add: leaf_depths_def all_nodes.simps [of "set_is_leaf True node"])
    with True show ?thesis
      by (simp add: build_tree_stop max.commute)
  next
    case False
    obtain c0 c1 c2 c3 where c: "split_children img node = [c0, c1, c2, c3]"
      using split_children_4 by blast
    have ih: "snd (build_tree img ch m) = fold max (leaf_depths (fst (build_tree img ch m))) m"
      if "ch \<in> set [c0, c1, c2, c3]" for ch m
      using "1.IH" [of "split img node" ch m] False that fresh_split_children [of ch img node]
      by (simp add: stop_rule_def c)
    have ld: "leaf_depths (set_childrens (Some [b0, b1, b2, b3]) (split img node))
              = leaf_depths b0 @ leaf_depths b1 @ leaf_depths b2 @ leaf_depths b3"
      for b0 b1 b2 b3
      using "1.prems"
      by (simp add: leaf_depths_def all_nodes.simps [of "set_childrens _ _"] children_list_def
          fresh_def)
    show ?thesis
      unfolding build_tree_split [OF False c] fst_conv snd_conv ld fold_append comp_def
      using ih by simp
  qed
qed

lemma fold_max_Max: "fold max xs (m::int) = Max (insert m (set xs))"
  using Max.set_eq_fold [of m xs] by simp

lemma QuadTree_init_Inr:
  assumes "QuadTree_init img = Inr t"
  obtains bb where "getbbox img = Some bb"
    "root_node t = fst (build_tree img (QuadtreeNode_init img bb 0) 0)"
    "max_depth t = snd (build_tree img (QuadtreeNode_init img bb 0) 0)"
    "width t = fst (img_size img)" "height t = snd (img_size img)"
  using assms by (auto simp: QuadTree_init_def Let_def split: option.splits prod.splits)

lemma QuadTree_init_built:
  assumes "QuadTree_init img = Inr t"
  shows "built (root_node t)" "depth (root_node t) = 0"
    "getbbox img = Some (border_box (root_node t))"
    "max_depth t = Max (insert 0 (set (leaf_depths (root_node t))))"
proof -
  from assms obtain bb where bb: "getbbox img = Some bb"
    "root_node t = fst (build_tree img (QuadtreeNode_init img bb 0) 0)"
    "max_depth t = snd (build_tree img (QuadtreeNode_init img bb 0) 0)"
    by (rule QuadTree_init_Inr)
  show "built (root_node t)" unfolding bb(2) by (rule build_tree_built) simp
  show "depth (root_node t) = 0" unfolding bb(2) by (simp add: build_tree_keeps)
  show "getbbox img = Some (border_box (root_node t))"
    unfolding bb(2) by (simp add: build_tree_keeps bb(1))
  show "max_depth t = Max (insert 0 (set (leaf_depths (root_node t))))"
    unfolding bb(2,3) by (simp add: build_tree_max fold_max_Max)
qed

lemma tree_depths:
  assumes "QuadTree_init img = Inr t" "m \<in> set (all_nodes (root_node t))"
  shows "0 \<le> depth m" "depth m \<le> MAX_DEPTH" "built m"
  using built_depth_le [of "root_node t" m] built_nodes [of "root_node t" m]
    QuadTree_init_built(1,2) [OF assms(1)] assms(2)
  by (simp_all add: MAX_DEPTH_def)

lemma tree_max_depth:
  assumes "QuadTree_init img = Inr t"
  shows "max_depth t = Max (depth ` {m \<in> set (all_nodes (root_node t)). is_leaf m})"
proof -
  let ?S = "depth ` {m \<in> set (all_nodes (root_node t)). is_leaf m}"
  have s: "set (leaf_depths (root_node t)) = ?S"
    by (auto simp: leaf_depths_def)
  have ne: "?S \<noteq> {}"
    using built_has_leaf [OF QuadTree_init_built(1) [OF assms]] by auto
  have fin: "finite ?S" by simp
  have "0 \<le> Max ?S"
    using ne fin tree_depths(1) [OF assms] by (auto simp: Max_ge_iff)
  then have "Max (insert 0 ?S) = Max ?S"
    using ne fin by (simp add: max_def)
  then show ?thesis
    using QuadTree_init_built(4) [OF assms] by (simp add: s)
qed

subsection \<open>The example images\<close>

lemma length_bin_hist [simp]: "k < 256 \<Longrightarrow> length (bin_hist k n) = 256"
  by (simp add: bin_hist_def)

lemma weighted_average_bin:
  "k < 256 \<Longrightarrow> 0 < n \<Longrightarrow> weighted_average (bin_hist k n) = (real k, 0)"
  by (rule weighted_average_concentrated)
     (auto simp: bin_hist_def nth_append nth_Cons')

lemma color_flat_hist:
  assumes "r < 256" "g < 256" "b < 256" "0 < n"
  shows "color_from_histogram (flat_hist n (r, g, b)) = ((int r, int g, int b), 0)"
  using assms
  by (simp add: color_from_histogram_def flat_hist_def weighted_average_bin)

lemma sum_list_enumerate_zeros:
  fixes f :: "nat \<Rightarrow> nat \<Rightarrow> 'a::comm_monoid_add"
  assumes "\<And>i. f i 0 = 0"
  shows "sum_list (map (\<lambda>(i, x). f i x) (enumerate n (replicate m 0))) = 0"
  by (simp add: sum_list_enumerate assms)

lemma weighted_average_two_bin: "weighted_average two_bin_hist = (150, 50)"
proof -
  have t: "sum_list two_bin_hist = 4" by (simp add: two_bin_hist_def)
  have a: "sum_list (map (\<lambda>(i, x). i * x) (enumerate 0 two_bin_hist)) = 600"
    by (simp add: two_bin_hist_def enumerate_append_eq sum_list_enumerate_zeros)
  have b: "sum_list (map (\<lambda>(i, x). real x * (150 - real i)\<^sup>2) (enumerate 0 two_bin_hist)) = 10000"
    by (simp add: two_bin_hist_def enumerate_append_eq sum_list_enumerate_zeros)
  have s: "sqrt 2500 = 50"
    by (rule real_sqrt_unique) simp_all
  show ?thesis
    by (simp add: weighted_average_def t a b s)
qed

lemma color_two_bin:
  "color_from_histogram (two_bin_hist @ two_bin_hist @ two_bin_hist) = ((150, 150, 150), 9999 / 200)"
proof -
  have l: "length two_bin_hist = 256" by (simp add: two_bin_hist_def)
  show ?thesis
    by (simp add: color_from_histogram_def l weighted_average_two_bin)
qed

lemma QuadtreeNode_init_flat:
  assumes "crop_histogram img bb = flat_hist n (r, g, b)" "0 < n" "r < 256" "g < 256" "b < 256"
  shows "QuadtreeNode_init img bb d
         = QuadtreeNode bb d None False [] (box_center bb) (int r, int g, int b) 0"
  using assms
  by (cases bb) (simp add: QuadtreeNode_init_def color_flat_hist box_center_def)

lemma build_tree_flat:
  assumes "crop_histogram img bb = flat_hist n (r, g, b)" "0 < n" "r < 256" "g < 256" "b < 256"
  shows "build_tree img (QuadtreeNode_init img bb d) md
         = (leaf_node bb d (int r, int g, int b), max md d)"
  unfolding QuadtreeNode_init_flat [OF assms]
  by (subst build_tree_stop) (simp_all add: stop_rule_def ERROR_THRESHOLD_def leaf_node_def)

lemma QuadTree_init_flat:
  assumes "getbbox img = Some bb"
    "crop_histogram img bb = flat_hist n (r, g, b)" "0 < n" "r < 256" "g < 256" "b < 256"
  shows "QuadTree_init img
         = Inr \<lparr>width = fst (img_size img), height = snd (img_size img),
                 root_node = leaf_node bb 0 (int r, int g, int b), max_depth = 0\<rparr>"
  by (simp add: QuadTree_init_def assms(1) build_tree_flat [OF assms(2-)])

lemma flat_image_tree: "QuadTree_init flat_image = Inr flat_tree"
  using QuadTree_init_flat [of flat_image "(0, 0, 8, 8)" 64 10 20 30]
  by (simp add: flat_image_def flat_tree_def)

lemma margin_image_tree: "QuadTree_init margin_image = Inr margin_tree"
  using QuadTree_init_flat [of margin_image "(1, 1, 3, 3)" 4 200 200 200]
  by (simp add: margin_image_def margin_tree_def)

lemma checker_root_init:
  "QuadtreeNode_init checker_image (0, 0, 2, 2) 0
   = QuadtreeNode (0, 0, 2, 2) 0 None False [] \<lparr>x_coordinate = 1, y_coordinate = 1\<rparr>
       (150, 150, 150) (9999 / 200)"
  by (simp add: QuadtreeNode_init_def checker_image_def color_two_bin)

lemma checker_image_tree: "QuadTree_init checker_image = Inr checker_tree"
proof -
  let ?r = "QuadtreeNode (0, 0, 2, 2) 0 None False [] \<lparr>x_coordinate = 1, y_coordinate = 1\<rparr>
       (150, 150, 150) (9999 / 200)"
  have ns: "\<not> stop_rule ?r"
    by (simp add: stop_rule_def MAX_DEPTH_def ERROR_THRESHOLD_def)
  have sc: "split_children checker_image ?r
            = [QuadtreeNode_init checker_image (0, 0, 1, 1) 1,
               QuadtreeNode_init checker_image (1, 0, 2, 1) 1,
               QuadtreeNode_init checker_image (0, 1, 1, 2) 1,
               QuadtreeNode_init checker_image (1, 1, 2, 2) 1]"
    by (simp add: split_children_def)
  have h: "crop_histogram checker_image (0, 0, 1, 1) = flat_hist 1 (200, 200, 200)"
    "crop_histogram checker_image (1, 0, 2, 1) = flat_hist 1 (100, 100, 100)"
    "crop_histogram checker_image (0, 1, 1, 2) = flat_hist 1 (100, 100, 100)"
    "crop_histogram checker_image (1, 1, 2, 2) = flat_hist 1 (200, 200, 200)"
    by (simp_all add: checker_image_def)
  have b: "build_tree checker_image ?r 0 = (checker_root, 1)"
    unfolding build_tree_split [OF ns sc]
    by (simp add: build_tree_flat [OF h(1)] build_tree_flat [OF h(2)] build_tree_flat [OF h(3)]
        build_tree_flat [OF h(4)] checker_root_def split_def)
  have g: "getbbox checker_image = Some (0, 0, 2, 2)" "img_size checker_image = (2, 2)"
    by (simp_all add: checker_image_def)
  show ?thesis
    by (simp add: QuadTree_init_def g checker_root_init b checker_tree_def)
qed

section \<open>Shape of a built tree\<close>

text \<open>
  Claim C7. Every node of a tree that the construction returns has no children or exactly
  four; it is a leaf exactly when it has no children; and when it has children, each child
  is one level deeper, the boxes of the children are the four quadrants of the node's box
  cut at its centre point (top-left, top-right, bottom-left, bottom-right), and the regions
  of the children are pairwise disjoint and their union is the region of the node.
\<close>

theorem tree_shape:
  assumes "QuadTree_init img = Inr t" "n \<in> set (all_nodes (root_node t))"
  shows "(childrens n = None \<or> (\<exists>cs. childrens n = Some cs \<and> length cs = 4))
    \<and> (is_leaf n \<longrightarrow> childrens n = None)
    \<and> (childrens n \<noteq> None \<longrightarrow> \<not> is_leaf n)
    \<and> (\<forall>cs. childrens n = Some cs \<longrightarrow>
          (\<forall>c\<in>set cs. depth c = depth n + 1)
        \<and> map border_box cs =
            (case border_box n of (left, upper, right, lower) \<Rightarrow>
               let cx = x_coordinate (node_center_point n);
                   cy = y_coordinate (node_center_point n)
               in [(left, upper, cx, cy), (cx, upper, right, cy),
                   (left, cy, cx, lower), (cx, cy, right, lower)])
        \<and> (\<Union>c\<in>set cs. region (border_box c)) = region (border_box n)
        \<and> (\<forall>i<length cs. \<forall>j<length cs. i \<noteq> j \<longrightarrow>
              region (border_box (cs ! i)) \<inter> region (border_box (cs ! j)) = {}))"
proof -
  have b: "built n" using tree_depths(3) [OF assms] .
  have c: "node_center_point n = box_center (border_box n)"
    using b by (subst (asm) built.simps) simp
  have leaf: "is_leaf n \<longleftrightarrow> childrens n = None"
    using b by (subst (asm) built.simps) (auto split: option.splits)
  have kids: "(\<forall>c\<in>set cs. depth c = depth n + 1) \<and> map border_box cs = quadrants (border_box n)"
    if "childrens n = Some cs" for cs
    using b that by (subst (asm) built.simps) auto
  have q: "quadrants (border_box n) =
            (case border_box n of (left, upper, right, lower) \<Rightarrow>
               let cx = x_coordinate (node_center_point n);
                   cy = y_coordinate (node_center_point n)
               in [(left, upper, cx, cy), (cx, upper, right, cy),
                   (left, cy, cx, lower), (cx, cy, right, lower)])"
    by (cases "border_box n") (simp add: c quadrants_def box_center_def Let_def)
  have cover: "(\<Union>c\<in>set cs. region (border_box c)) = region (border_box n)"
    if "childrens n = Some cs" for cs
  proof -
    have "(\<Union>c\<in>set cs. region (border_box c)) = (\<Union>q\<in>set (map border_box cs). region q)"
      by simp
    also have "\<dots> = region (border_box n)"
      unfolding conjunct2 [OF kids [OF that]] by (rule quadrants_cover)
    finally show ?thesis .
  qed
  have disj: "region (border_box (cs ! i)) \<inter> region (border_box (cs ! j)) = {}"
    if "childrens n = Some cs" "i < length cs" "j < length cs" "i \<noteq> j" for cs i j
  proof -
    have "sorted_wrt (\<lambda>a b. region a \<inter> region b = {}) (map border_box cs)"
      unfolding conjunct2 [OF kids [OF that(1)]] by (rule quadrants_disjoint)
    then have s: "sorted_wrt (\<lambda>a b. region (border_box a) \<inter> region (border_box b) = {}) cs"
      by (simp add: sorted_wrt_map)
    show ?thesis
    proof (cases "i < j")
      case True
      then show ?thesis using s that by (simp add: sorted_wrt_iff_nth_less)
    next
      case False
      then have "j < i" using that(4) by simp
      then have "region (border_box (cs ! j)) \<inter> region (border_box (cs ! i)) = {}"
        using s that by (simp add: sorted_wrt_iff_nth_less)
      then show ?thesis by blast
    qed
  qed
  have len: "length cs = 4" if "childrens n = Some cs" for cs
    using arg_cong [OF conjunct2 [OF kids [OF that]], of length] by simp
  show ?thesis
    using leaf len kids cover disj unfolding q [symmetric]
    by (cases "childrens n") auto
qed


theorem tree_shape_witness:
  "QuadTree_init checker_image = Inr checker_tree
   \<and> root_node checker_tree \<in> set (all_nodes (root_node checker_tree))
   \<and> (\<exists>cs. childrens (root_node checker_tree) = Some cs \<and> length cs = 4
          \<and> (\<Union>c\<in>set cs. region (border_box c)) = region (0, 0, 2, 2))"
  using tree_shape [OF checker_image_tree all_nodes_self]
  by (simp add: checker_image_tree all_nodes_self)
     (simp add: checker_tree_def checker_root_def leaf_node_def)

section \<open>The stopping rule\<close>

text \<open>
  Claim C8. \<open>build_tree\<close> is a total function (its recursion is on \<open>MAX_DEPTH - depth\<close>), so
  the construction returns a tree for every image that has a bounding box. A call on a
  node with \<open>depth \<ge> MAX_DEPTH\<close> (8) or \<open>error \<le> ERROR_THRESHOLD\<close> (13) marks it a leaf, does not
  split it, and sets the depth counter to the maximum of its value and the depth. In the
  tree returned a node is a leaf exactly when it meets that test, and exactly when it has no
  children; no depth exceeds \<open>MAX_DEPTH\<close>; and the counter is the depth of the deepest leaf.
\<close>

theorem build_tree_leaf_rule:
  "MAX_DEPTH = 8 \<and> ERROR_THRESHOLD = 13
   \<and> (depth node \<ge> MAX_DEPTH \<or> error node \<le> ERROR_THRESHOLD \<longrightarrow>
        build_tree img node md = (set_is_leaf True node, max md (depth node)))
   \<and> (getbbox img = Some bb \<longrightarrow>
        (\<exists>t. QuadTree_init img = Inr t
           \<and> (\<forall>n\<in>set (all_nodes (root_node t)).
                 (is_leaf n \<longleftrightarrow> depth n \<ge> MAX_DEPTH \<or> error n \<le> ERROR_THRESHOLD)
               \<and> (is_leaf n \<longleftrightarrow> childrens n = None)
               \<and> 0 \<le> depth n \<and> depth n \<le> MAX_DEPTH)
           \<and> max_depth t = Max (depth ` {n \<in> set (all_nodes (root_node t)). is_leaf n})))"
proof -
  have 1: "build_tree img node md = (set_is_leaf True node, max md (depth node))"
    if "depth node \<ge> MAX_DEPTH \<or> error node \<le> ERROR_THRESHOLD"
    using that build_tree_stop [of node img md] by (simp add: stop_rule_def)
  have 2: "\<exists>t. QuadTree_init img = Inr t
           \<and> (\<forall>n\<in>set (all_nodes (root_node t)).
                 (is_leaf n \<longleftrightarrow> depth n \<ge> MAX_DEPTH \<or> error n \<le> ERROR_THRESHOLD)
               \<and> (is_leaf n \<longleftrightarrow> childrens n = None)
               \<and> 0 \<le> depth n \<and> depth n \<le> MAX_DEPTH)
           \<and> max_depth t = Max (depth ` {n \<in> set (all_nodes (root_node t)). is_leaf n})"
    if g: "getbbox img = Some bb"
  proof -
    obtain t where t: "QuadTree_init img = Inr t"
      using g by (cases "build_tree img (QuadtreeNode_init img bb 0) 0") (simp add: QuadTree_init_def)
    have "(is_leaf n \<longleftrightarrow> depth n \<ge> MAX_DEPTH \<or> error n \<le> ERROR_THRESHOLD)
          \<and> (is_leaf n \<longleftrightarrow> childrens n = None) \<and> 0 \<le> depth n \<and> depth n \<le> MAX_DEPTH"
      if n: "n \<in> set (all_nodes (root_node t))" for n
    proof -
      have "built n" using tree_depths(3) [OF t n] .
      then have "(is_leaf n \<longleftrightarrow> stop_rule n) \<and> (is_leaf n \<longleftrightarrow> childrens n = None)"
        by (subst (asm) built.simps) (auto split: option.splits)
      then show ?thesis
        using tree_depths(1,2) [OF t n] unfolding stop_rule_def by blast
    qed
    with t tree_max_depth [OF t] show ?thesis by blast
  qed
  have 0: "MAX_DEPTH = 8 \<and> ERROR_THRESHOLD = 13"
    by (simp add: MAX_DEPTH_def ERROR_THRESHOLD_def)
  show ?thesis using 0 1 2 by blast
qed

theorem build_tree_leaf_rule_witness:
  "getbbox checker_image = Some (0, 0, 2, 2)
   \<and> QuadTree_init checker_image = Inr checker_tree
   \<and> max_depth checker_tree = 1
   \<and> max_depth checker_tree
       = Max (depth ` {n \<in> set (all_nodes (root_node checker_tree)). is_leaf n})
   \<and> error (leaf_node (0, 0, 1, 1) 1 (200, 200, 200)) \<le> ERROR_THRESHOLD
   \<and> build_tree checker_image (leaf_node (0, 0, 1, 1) 1 (200, 200, 200)) 0
       = (set_is_leaf True (leaf_node (0, 0, 1, 1) 1 (200, 200, 200)), 1)"
proof -
  have g: "getbbox checker_image = Some (0, 0, 2, 2)" by (simp add: checker_image_def)
  have e: "error (leaf_node (0, 0, 1, 1) 1 (200, 200, 200)) \<le> ERROR_THRESHOLD"
    by (simp add: leaf_node_def ERROR_THRESHOLD_def)
  note th = build_tree_leaf_rule
    [of "leaf_node (0, 0, 1, 1) 1 (200, 200, 200)" checker_image 0 "(0, 0, 2, 2)"]
  have 1: "build_tree checker_image (leaf_node (0, 0, 1, 1) 1 (200, 200, 200)) 0
           = (set_is_leaf True (leaf_node (0, 0, 1, 1) 1 (200, 200, 200)), 1)"
    using th e by (simp add: leaf_node_def)
  have 2: "max_depth checker_tree
           = Max (depth ` {n \<in> set (all_nodes (root_node checker_tree)). is_leaf n})"
    using th g by (simp add: checker_image_tree)
  show ?thesis using g e 1 2 by (simp add: checker_image_tree) (simp add: checker_tree_def)
qed

section \<open>The depth check of the leaf query\<close>

text \<open>
  Claim C4. \<open>get_leaf_nodes t d\<close> fails exactly when \<open>d\<close> exceeds the depth counter of the
  tree, and then with ValueError (the InvalidDepth error); so it fails at the counter plus
  one; and for \<open>d\<close> up to the counter it returns the traversal for \<open>d\<close> itself.
\<close>

theorem get_leaf_nodes_depth_check:
  "((\<exists>e. get_leaf_nodes t d = Inl e) \<longleftrightarrow> d > max_depth t)
   \<and> (d > max_depth t \<longrightarrow> get_leaf_nodes t d = Inl ValueError)
   \<and> get_leaf_nodes t (max_depth t + 1) = Inl ValueError
   \<and> (d \<le> max_depth t \<longrightarrow>
        get_leaf_nodes t d = Inr (get_leaf_nodes_recursion (root_node t) d []))"
  by (simp add: get_leaf_nodes_def)

lemma checker_leaves:
  "get_leaf_nodes_recursion checker_root 0 [] = [checker_root]"
  "get_leaf_nodes_recursion checker_root 1 [] =
     [leaf_node (0, 0, 1, 1) 1 (200, 200, 200), leaf_node (1, 0, 2, 1) 1 (100, 100, 100),
      leaf_node (0, 1, 1, 2) 1 (100, 100, 100), leaf_node (1, 1, 2, 2) 1 (200, 200, 200)]"
  by (simp_all add: get_leaf_nodes_recursion.simps checker_root_def leaf_node_def)

theorem get_leaf_nodes_depth_check_witness:
  "max_depth checker_tree = 1
   \<and> get_leaf_nodes checker_tree 2 = Inl ValueError
   \<and> get_leaf_nodes checker_tree 1 = Inr (get_leaf_nodes_recursion (root_node checker_tree) 1 [])
   \<and> get_leaf_nodes checker_tree 0 = Inr [checker_root]"
  using get_leaf_nodes_depth_check [of checker_tree 2] get_leaf_nodes_depth_check [of checker_tree 1]
    get_leaf_nodes_depth_check [of checker_tree 0]
  by (simp add: checker_tree_def checker_leaves)

section \<open>The leaves at a depth\<close>

lemma frontier_subset: "m \<in> set (frontier d n) \<Longrightarrow> m \<in> set (all_nodes n)"
proof (induction n rule: all_nodes.induct)
  case (1 n)
  show ?case
  proof (cases "stops_at d n")
    case True
    with "1.prems" show ?thesis by (simp add: frontier.simps [of d n] all_nodes_self)
  next
    case False
    with "1.prems" obtain c where "c \<in> set (children_list n)" "m \<in> set (frontier d c)"
      by (auto simp: frontier.simps [of d n])
    with "1.IH" all_nodes_child show ?thesis by blast
  qed
qed

lemma frontier_stops: "m \<in> set (frontier d n) \<Longrightarrow> stops_at d m"
proof (induction n rule: all_nodes.induct)
  case (1 n)
  show ?case
  proof (cases "stops_at d n")
    case True
    with "1.prems" show ?thesis by (simp add: frontier.simps [of d n])
  next
    case False
    with "1.prems" obtain c where "c \<in> set (children_list n)" "m \<in> set (frontier d c)"
      by (auto simp: frontier.simps [of d n])
    with "1.IH" show ?thesis by blast
  qed
qed

lemma frontier_depth:
  "built n \<Longrightarrow> depth n \<le> d \<Longrightarrow> m \<in> set (frontier d n) \<Longrightarrow> depth m \<le> d"
proof (induction n rule: all_nodes.induct)
  case (1 n)
  show ?case
  proof (cases "stops_at d n")
    case True
    with "1.prems" show ?thesis by (simp add: frontier.simps [of d n])
  next
    case False
    with "1.prems" obtain c where c: "c \<in> set (children_list n)" "m \<in> set (frontier d c)"
      by (auto simp: frontier.simps [of d n])
    have "depth n \<noteq> d" using False by (simp add: stops_at_def)
    with "1.prems"(2) built_child [OF "1.prems"(1) c(1)] have "built c" "depth c \<le> d" by simp_all
    with "1.IH" [OF c(1)] c(2) show ?thesis by simp
  qed
qed

lemma descendant_deeper:
  assumes "built n" "depth n \<le> MAX_DEPTH" "m \<in> set (all_nodes n)" "m \<noteq> n"
  shows "depth n < depth m"
proof -
  from all_nodes_cases [OF assms(3)] assms(4)
  obtain c where c: "c \<in> set (children_list n)" "m \<in> set (all_nodes c)" by blast
  have bc: "built c" "depth c = depth n + 1" "\<not> stop_rule n"
    using built_child [OF assms(1) c(1)] by simp_all
  then have "depth c \<le> MAX_DEPTH" by (simp add: stop_rule_def)
  with built_depth_le [OF bc(1) _ c(2)] bc(2) show ?thesis by simp
qed

lemma leaf_alone: "built n \<Longrightarrow> is_leaf n \<Longrightarrow> all_nodes n = [n]"
  by (subst (asm) built.simps, subst all_nodes.simps)
     (auto simp: children_list_def split: option.splits)


lemma recursion_first_stops:
  "get_leaf_nodes_recursion n d [] = first_stops d n"
  using first_stops_frontier [of d "[]" n] by (simp add: recursion_frontier first_stops_def)

lemma disjoint_nth:
  assumes "sorted_wrt (\<lambda>a b. f a \<inter> f b = {}) xs" "i < length xs" "j < length xs" "i \<noteq> j"
  shows "f (xs ! i) \<inter> f (xs ! j) = {}"
proof (cases "i < j")
  case True
  then show ?thesis using assms by (simp add: sorted_wrt_iff_nth_less)
next
  case False
  then have "j < i" using assms(4) by simp
  then have "f (xs ! j) \<inter> f (xs ! i) = {}"
    using assms by (simp add: sorted_wrt_iff_nth_less)
  then show ?thesis by blast
qed

text \<open>
  Claim C1, as amended. For a tree the construction returns and a depth \<open>d\<close> with
  \<open>0 \<le> d \<le> max_depth\<close>, \<open>get_leaf_nodes\<close> returns the pre-order sequence of the nodes that are
  the first on their branch to be a leaf or at depth \<open>d\<close> (\<open>first_stops\<close>); no node returned
  is a descendant of another node returned; the regions of the nodes returned are pairwise
  disjoint; and their union is the region of the root, whose box is the box that
  \<^verbatim>\<open>image.getbbox()\<close> returned.
\<close>

theorem get_leaf_nodes_partition:
  assumes "QuadTree_init img = Inr t" "0 \<le> d" "d \<le> max_depth t"
  shows "\<exists>ns. get_leaf_nodes t d = Inr ns
     \<and> ns = first_stops d (root_node t)
     \<and> (\<forall>n\<in>set ns. \<forall>m\<in>set ns. m \<in> set (all_nodes n) \<longrightarrow> m = n)
     \<and> (\<forall>i<length ns. \<forall>j<length ns. i \<noteq> j \<longrightarrow>
           region (border_box (ns ! i)) \<inter> region (border_box (ns ! j)) = {})
     \<and> (\<Union>n\<in>set ns. region (border_box n)) = region (border_box (root_node t))
     \<and> getbbox img = Some (border_box (root_node t))"
proof -
  let ?r = "root_node t"
  let ?ns = "frontier d ?r"
  have b: "built ?r" and d0: "depth ?r = 0" and g: "getbbox img = Some (border_box ?r)"
    using QuadTree_init_built [OF assms(1)] by simp_all
  have fs: "first_stops d ?r = ?ns"
    using recursion_first_stops [of ?r d] by (simp add: recursion_frontier)
  have res: "get_leaf_nodes t d = Inr ?ns"
    using assms(3) by (simp add: get_leaf_nodes_def recursion_frontier)
  have cov: "(\<Union>n\<in>set ?ns. region (border_box n)) = region (border_box ?r)"
    and sw: "sorted_wrt (\<lambda>a b. region (border_box a) \<inter> region (border_box b) = {}) ?ns"
    using frontier_cover [OF b, of d] by simp_all
  have dis: "region (border_box (?ns ! i)) \<inter> region (border_box (?ns ! j)) = {}"
    if "i < length ?ns" "j < length ?ns" "i \<noteq> j" for i j
    using disjoint_nth [OF sw that] .
  have nodesc: "m = n" if n: "n \<in> set ?ns" and m: "m \<in> set ?ns" and mn: "m \<in> set (all_nodes n)"
    for n m
  proof (rule ccontr)
    assume ne: "m \<noteq> n"
    have nt: "n \<in> set (all_nodes ?r)" using frontier_subset [OF n] .
    have bn: "built n" and dn: "depth n \<le> MAX_DEPTH"
      using tree_depths [OF assms(1) nt] by simp_all
    have deeper: "depth n < depth m" using descendant_deeper [OF bn dn mn ne] .
    have md: "depth m \<le> d" using frontier_depth [OF b _ m] d0 assms(2) by simp
    have "stops_at d n" using frontier_stops [OF n] .
    then show False
    proof (unfold stops_at_def, elim disjE)
      assume "is_leaf n"
      with leaf_alone [OF bn] mn ne show False by simp
    next
      assume "depth n = d"
      with deeper md show False by simp
    qed
  qed
  show ?thesis
  proof (intro exI [of _ ?ns] conjI)
    show "get_leaf_nodes t d = Inr ?ns" by (rule res)
    show "?ns = first_stops d ?r" by (simp add: fs)
    show "\<forall>n\<in>set ?ns. \<forall>m\<in>set ?ns. m \<in> set (all_nodes n) \<longrightarrow> m = n"
      using nodesc by blast
    show "\<forall>i<length ?ns. \<forall>j<length ?ns. i \<noteq> j \<longrightarrow>
           region (border_box (?ns ! i)) \<inter> region (border_box (?ns ! j)) = {}"
      using dis by blast
    show "(\<Union>n\<in>set ?ns. region (border_box n)) = region (border_box ?r)" by (rule cov)
    show "getbbox img = Some (border_box ?r)" by (rule g)
  qed
qed


theorem get_leaf_nodes_partition_witness:
  "QuadTree_init checker_image = Inr checker_tree \<and> (0::int) \<le> 1 \<and> 1 \<le> max_depth checker_tree
   \<and> get_leaf_nodes checker_tree 1 = Inr (first_stops 1 (root_node checker_tree))
   \<and> first_stops 1 (root_node checker_tree) =
       [leaf_node (0, 0, 1, 1) 1 (200, 200, 200), leaf_node (1, 0, 2, 1) 1 (100, 100, 100),
        leaf_node (0, 1, 1, 2) 1 (100, 100, 100), leaf_node (1, 1, 2, 2) 1 (200, 200, 200)]
   \<and> (\<Union>n\<in>set (first_stops 1 (root_node checker_tree)). region (border_box n))
       = region (0, 0, 2, 2)"
proof -
  let ?L = "[leaf_node (0, 0, 1, 1) 1 (200, 200, 200), leaf_node (1, 0, 2, 1) 1 (100, 100, 100),
             leaf_node (0, 1, 1, 2) 1 (100, 100, 100), leaf_node (1, 1, 2, 2) 1 (200, 200, 200)]"
  have m: "(0::int) \<le> 1" "1 \<le> max_depth checker_tree" by (simp_all add: checker_tree_def)
  have e: "get_leaf_nodes checker_tree 1 = Inr ?L"
    by (simp add: get_leaf_nodes_def checker_tree_def checker_leaves)
  have bb: "border_box (root_node checker_tree) = (0, 0, 2, 2)"
    by (simp add: checker_tree_def checker_root_def)
  from get_leaf_nodes_partition [OF checker_image_tree m]
  obtain ns where ns: "get_leaf_nodes checker_tree 1 = Inr ns
     \<and> ns = first_stops 1 (root_node checker_tree)
     \<and> (\<forall>n\<in>set ns. \<forall>m\<in>set ns. m \<in> set (all_nodes n) \<longrightarrow> m = n)
     \<and> (\<forall>i<length ns. \<forall>j<length ns. i \<noteq> j \<longrightarrow>
           region (border_box (ns ! i)) \<inter> region (border_box (ns ! j)) = {})
     \<and> (\<Union>n\<in>set ns. region (border_box n)) = region (border_box (root_node checker_tree))
     \<and> getbbox checker_image = Some (border_box (root_node checker_tree))" ..
  have 1: "get_leaf_nodes checker_tree 1 = Inr ns"
    using ns by (elim conjE)
  have 2: "ns = first_stops 1 (root_node checker_tree)"
    using ns by (elim conjE)
  have 3: "(\<Union>n\<in>set ns. region (border_box n)) = region (border_box (root_node checker_tree))"
    using ns by (elim conjE)
  have 4: "ns = ?L" using 1 e by simp
  show ?thesis
    using m 3 e unfolding 2 [symmetric] bb 4 by (simp add: checker_image_tree)
qed

text \<open>
  The claim as stated has the root built over the full image bounds and the regions
  returned cover the full image area. The root is built over \<^verbatim>\<open>image.getbbox()\<close>: for the
  4 by 4 image with a zero margin, whose bounding box is \<open>(1, 1, 3, 3)\<close>, the point \<open>(0, 0)\<close>
  of the image area \<open>(0, 0, width, height)\<close> is in no region returned.
\<close>

theorem full_image_cover_counterexample:
  "QuadTree_init margin_image = Inr margin_tree
   \<and> 0 \<le> max_depth margin_tree
   \<and> get_leaf_nodes margin_tree 0 = Inr [root_node margin_tree]
   \<and> (0, 0) \<in> region (0, 0, real (width margin_tree), real (height margin_tree))
   \<and> (0, 0) \<notin> region (border_box (root_node margin_tree))"
proof -
  have r: "root_node margin_tree = leaf_node (1, 1, 3, 3) 0 (200, 200, 200)"
    and m: "max_depth margin_tree = 0" and w: "width margin_tree = 4" "height margin_tree = 4"
    by (simp_all add: margin_tree_def)
  have l: "get_leaf_nodes_recursion (leaf_node (1, 1, 3, 3) 0 (200, 200, 200)) 0 []
           = [leaf_node (1, 1, 3, 3) 0 (200, 200, 200)]"
    by (subst get_leaf_nodes_recursion.simps) (simp add: leaf_node_def)
  have g: "get_leaf_nodes margin_tree 0 = Inr [root_node margin_tree]"
    by (simp add: get_leaf_nodes_def m r l)
  have b: "border_box (root_node margin_tree) = (1, 1, 3, 3)"
    by (simp add: r leaf_node_def)
  have i: "(0, 0) \<in> region (0, 0, 4, 4)" "(0, 0) \<notin> region (1, 1, 3, 3)"
    by (simp_all add: region_def)
  show ?thesis
    using g i by (simp add: margin_image_tree m w b)
qed

section \<open>A uniform image\<close>

lemma leaf_node_sel [simp]:
  "border_box (leaf_node bb d c) = bb"
  "depth (leaf_node bb d c) = d"
  "childrens (leaf_node bb d c) = None"
  "is_leaf (leaf_node bb d c) = True"
  "node_points (leaf_node bb d c) = []"
  "node_center_point (leaf_node bb d c) = box_center bb"
  "average_color (leaf_node bb d c) = c"
  "error (leaf_node bb d c) = 0"
  by (simp_all add: leaf_node_def)

lemma recursion_leaf: "is_leaf n \<Longrightarrow> get_leaf_nodes_recursion n d acc = acc @ [n]"
  by (subst get_leaf_nodes_recursion.simps) simp

lemma all_nodes_leaf_node: "all_nodes (leaf_node bb d c) = [leaf_node bb d c]"
  by (subst all_nodes.simps) (simp add: children_list_def)

lemma create_image_eq:
  "create_image t level borders =
     (if level > max_depth t then Inl ValueError
      else Inr ((width t, height t),
                ((0, 0, real (width t), real (height t)), (0, 0, 0), False) #
                map (\<lambda>node. (border_box node, average_color node, borders))
                    (get_leaf_nodes_recursion (root_node t) level [])))"
  by (simp add: create_image_def get_leaf_nodes_def Let_def)

text \<open>
  Claim C5, as amended. For an image that has a bounding box and whose histogram over that
  box has all the mass of each channel at one bin (a uniform colour), the error of the root
  is 0, which is at most the threshold 13; the construction returns a tree that is the root
  alone, a leaf at depth 0, with depth counter 0; the leaf query returns that leaf at level
  0 (and below), and raises ValueError at every level above 0, where the entry point saves
  no file.
\<close>

theorem uniform_image_single_leaf:
  assumes "getbbox img = Some bb" "crop_histogram img bb = flat_hist n (r, g, b)"
    "0 < n" "r < 256" "g < 256" "b < 256"
  shows "\<exists>t. QuadTree_init img = Inr t
     \<and> error (root_node t) = 0 \<and> error (root_node t) \<le> ERROR_THRESHOLD
     \<and> all_nodes (root_node t) = [root_node t]
     \<and> is_leaf (root_node t) \<and> depth (root_node t) = 0 \<and> childrens (root_node t) = None
     \<and> border_box (root_node t) = bb \<and> average_color (root_node t) = (int r, int g, int b)
     \<and> max_depth t = 0
     \<and> get_leaf_nodes t level = (if level > 0 then Inl ValueError else Inr [root_node t])
     \<and> fst (compression_start img level borders False)
         = (if level > 0 then []
            else [ImageFile ((width t, height t),
                    [((0, 0, real (width t), real (height t)), (0, 0, 0), False),
                     (bb, (int r, int g, int b), borders)])])
     \<and> snd (compression_start img level borders False)
         = (if level > 0 then Some ValueError else None)
     \<and> (level > 0 \<longrightarrow> compression_start img level borders gif = ([], Some ValueError))"
proof -
  let ?t = "\<lparr>width = fst (img_size img), height = snd (img_size img),
             root_node = leaf_node bb 0 (int r, int g, int b), max_depth = 0\<rparr>"
  have t: "QuadTree_init img = Inr ?t" using QuadTree_init_flat [OF assms] .
  have g: "get_leaf_nodes ?t level = (if level > 0 then Inl ValueError else Inr [root_node ?t])"
    by (simp add: get_leaf_nodes_def recursion_leaf)
  have c1: "fst (compression_start img level borders False)
         = (if level > 0 then []
            else [ImageFile ((width ?t, height ?t),
                    [((0, 0, real (width ?t), real (height ?t)), (0, 0, 0), False),
                     (bb, (int r, int g, int b), borders)])])"
    by (simp add: compression_start_def t create_image_eq recursion_leaf)
  have c2: "snd (compression_start img level borders False)
         = (if level > 0 then Some ValueError else None)"
    by (simp add: compression_start_def t create_image_eq recursion_leaf)
  show ?thesis
  proof (intro exI [of _ ?t] conjI)
    show "QuadTree_init img = Inr ?t" by (rule t)
    show "get_leaf_nodes ?t level = (if level > 0 then Inl ValueError else Inr [root_node ?t])"
      by (rule g)
    show "fst (compression_start img level borders False)
         = (if level > 0 then []
            else [ImageFile ((width ?t, height ?t),
                    [((0, 0, real (width ?t), real (height ?t)), (0, 0, 0), False),
                     (bb, (int r, int g, int b), borders)])])" by (rule c1)
    show "snd (compression_start img level borders False)
         = (if level > 0 then Some ValueError else None)" by (rule c2)
    show "level > 0 \<longrightarrow> compression_start img level borders gif = ([], Some ValueError)"
      by (simp add: compression_start_def t create_image_eq)
  qed (simp_all add: all_nodes_leaf_node ERROR_THRESHOLD_def)
qed

theorem uniform_image_single_leaf_witness:
  "getbbox flat_image = Some (0, 0, 8, 8)
   \<and> crop_histogram flat_image (0, 0, 8, 8) = flat_hist 64 (10, 20, 30)
   \<and> (\<exists>t. QuadTree_init flat_image = Inr t \<and> all_nodes (root_node t) = [root_node t]
          \<and> is_leaf (root_node t) \<and> depth (root_node t) = 0 \<and> max_depth t = 0
          \<and> get_leaf_nodes t 0 = Inr [root_node t])"
proof -
  have h: "getbbox flat_image = Some (0, 0, 8, 8)"
    "crop_histogram flat_image (0, 0, 8, 8) = flat_hist 64 (10, 20, 30)"
    by (simp_all add: flat_image_def)
  from uniform_image_single_leaf [OF h, of 0 False False]
  obtain t where t: "QuadTree_init flat_image = Inr t
     \<and> error (root_node t) = 0 \<and> error (root_node t) \<le> ERROR_THRESHOLD
     \<and> all_nodes (root_node t) = [root_node t]
     \<and> is_leaf (root_node t) \<and> depth (root_node t) = 0 \<and> childrens (root_node t) = None
     \<and> border_box (root_node t) = (0, 0, 8, 8) \<and> average_color (root_node t) = (int 10, int 20, int 30)
     \<and> max_depth t = 0
     \<and> get_leaf_nodes t 0 = (if (0::int) > 0 then Inl ValueError else Inr [root_node t])
     \<and> fst (compression_start flat_image 0 False False)
         = (if (0::int) > 0 then []
            else [ImageFile ((width t, height t),
                    [((0, 0, real (width t), real (height t)), (0, 0, 0), False),
                     ((0, 0, 8, 8), (int 10, int 20, int 30), False)])])
     \<and> snd (compression_start flat_image 0 False False)
         = (if (0::int) > 0 then Some ValueError else None)
     \<and> ((0::int) > 0 \<longrightarrow> compression_start flat_image 0 False False = ([], Some ValueError))"
    by simp blast
  then have "QuadTree_init flat_image = Inr t \<and> all_nodes (root_node t) = [root_node t]
          \<and> is_leaf (root_node t) \<and> depth (root_node t) = 0 \<and> max_depth t = 0
          \<and> get_leaf_nodes t 0 = Inr [root_node t]"
    by simp
  with h show ?thesis by blast
qed

text \<open>
  The claim as stated gives the single root leaf for every level from 0 up. On the uniform 8
  by 8 image the tree is the root alone, and at level 1 the leaf query and the entry point
  raise ValueError; on the image that is entirely zero the construction itself raises
  TypeError.
\<close>

theorem uniform_image_level_counterexample:
  "QuadTree_init flat_image = Inr flat_tree
   \<and> all_nodes (root_node flat_tree) = [root_node flat_tree]
   \<and> get_leaf_nodes flat_tree 1 = Inl ValueError
   \<and> compression_start flat_image 1 False False = ([], Some ValueError)
   \<and> QuadTree_init black_image = Inl TypeError"
proof -
  have g: "get_leaf_nodes flat_tree 1 = Inl ValueError"
    by (simp add: get_leaf_nodes_def flat_tree_def)
  have c: "compression_start flat_image 1 False False = ([], Some ValueError)"
    by (simp add: compression_start_def flat_image_tree create_image_eq) (simp add: flat_tree_def)
  have b: "QuadTree_init black_image = Inl TypeError"
    by (simp add: QuadTree_init_def black_image_def)
  have a: "all_nodes (root_node flat_tree) = [root_node flat_tree]"
    by (simp add: flat_tree_def all_nodes_leaf_node)
  show ?thesis using g c b a flat_image_tree by simp
qed


section \<open>The animation run\<close>

lemma gif_frames_fail:
  "\<exists>v\<in>set vs. v > max_depth t \<Longrightarrow> gif_frames t borders vs frames = Inl ValueError"
  by (induction vs arbitrary: frames) (auto simp: create_image_eq)

lemma max_depth_nonneg: "QuadTree_init img = Inr t \<Longrightarrow> 0 \<le> max_depth t"
  using QuadTree_init_built(4) [of img t] by simp

text \<open>
  Claim C10. With the animation flag set, the entry point renders the depths
  \<open>[0..MAX_DEPTH]\<close> in order. For a tree whose depth counter is below \<open>MAX_DEPTH\<close>, the depth
  counter plus one is among them and the rendering at it raises ValueError, after the depths
  up to the counter have been rendered; so the run ends with ValueError and saves no
  animation, whatever the requested level (when the level itself exceeds the counter, the run
  fails before the still picture is saved).
\<close>

theorem animation_fails_below_max_depth:
  assumes "QuadTree_init img = Inr t" "max_depth t < MAX_DEPTH"
  shows "snd (compression_start img level borders True) = Some ValueError
     \<and> (\<forall>frames. GifFile frames \<notin> set (fst (compression_start img level borders True)))
     \<and> max_depth t + 1 \<in> set [0..MAX_DEPTH]
     \<and> create_image t (max_depth t + 1) borders = Inl ValueError
     \<and> gif_frames t borders [0..MAX_DEPTH] [] = Inl ValueError
     \<and> (\<forall>v\<in>set [0..max_depth t]. \<exists>p. create_image t v borders = Inr p)
     \<and> (level \<le> max_depth t \<longrightarrow>
          (\<exists>result. create_image t level borders = Inr result
             \<and> compression_start img level borders True = ([ImageFile result], Some ValueError)))
     \<and> (level > max_depth t \<longrightarrow>
          compression_start img level borders True = ([], Some ValueError))"
proof -
  have nn: "0 \<le> max_depth t" using max_depth_nonneg [OF assms(1)] .
  have mem: "max_depth t + 1 \<in> set [0..MAX_DEPTH]" using nn assms(2) by simp
  have gf: "gif_frames t borders [0..MAX_DEPTH] [] = Inl ValueError"
    by (rule gif_frames_fail) (use mem in force)
  have hi: "compression_start img level borders True = ([], Some ValueError)"
    if "level > max_depth t"
    using that by (simp add: compression_start_def assms(1) create_image_eq)
  have lo: "\<exists>result. create_image t level borders = Inr result
             \<and> compression_start img level borders True = ([ImageFile result], Some ValueError)"
    if "level \<le> max_depth t"
    using that by (simp add: compression_start_def assms(1) create_image_eq gf)
  have 1: "snd (compression_start img level borders True) = Some ValueError"
    using hi lo by (cases "level > max_depth t") auto
  have 2: "GifFile frames \<notin> set (fst (compression_start img level borders True))" for frames
    using hi lo by (cases "level > max_depth t") auto
  have 3: "create_image t (max_depth t + 1) borders = Inl ValueError"
    by (simp add: create_image_eq)
  have 4: "\<forall>v\<in>set [0..max_depth t]. \<exists>p. create_image t v borders = Inr p"
    by (simp add: create_image_eq)
  show ?thesis
    using 1 2 mem 3 gf 4 hi lo by (intro conjI allI impI) assumption+
qed

theorem animation_fails_below_max_depth_witness:
  "QuadTree_init flat_image = Inr flat_tree \<and> max_depth flat_tree < MAX_DEPTH
   \<and> snd (compression_start flat_image 0 False True) = Some ValueError
   \<and> create_image flat_tree 1 False = Inl ValueError
   \<and> compression_start flat_image 1 False True = ([], Some ValueError)"
proof -
  have m: "max_depth flat_tree < MAX_DEPTH" by (simp add: flat_tree_def MAX_DEPTH_def)
  have z: "max_depth flat_tree = 0" by (simp add: flat_tree_def)
  note th = animation_fails_below_max_depth [OF flat_image_tree m]
  have 1: "snd (compression_start flat_image 0 False True) = Some ValueError"
    using th [of 0 False] by (elim conjE)
  have 2: "create_image flat_tree 1 False = Inl ValueError"
    using th [of 0 False] unfolding z by simp
  have 3: "compression_start flat_image 1 False True = ([], Some ValueError)"
    using th [of 1 False] unfolding z by simp
  show ?thesis using m 1 2 3 flat_image_tree by simp
qed

section \<open>The point index\<close>

lemma insert_point_leaf:
  "childrens n = None \<Longrightarrow> insert_point n p = Inr (append_point p n)"
  by (subst insert_point.simps) (simp add: Let_def)

lemma checker_children [simp]:
  "children_list checker_root =
     [leaf_node (0, 0, 1, 1) 1 (200, 200, 200), leaf_node (1, 0, 2, 1) 1 (100, 100, 100),
      leaf_node (0, 1, 1, 2) 1 (100, 100, 100), leaf_node (1, 1, 2, 2) 1 (200, 200, 200)]"
  "childrens checker_root \<noteq> None"
  "node_center_point checker_root = \<lparr>x_coordinate = 1, y_coordinate = 1\<rparr>"
  "node_points checker_root = []"
  by (simp_all add: children_list_def checker_root_def)

lemma checker_insert:
  "insert_point checker_root \<lparr>x_coordinate = 0, y_coordinate = 0\<rparr>
   = Inr (set_childrens
       (Some [append_point \<lparr>x_coordinate = 0, y_coordinate = 0\<rparr>
                (leaf_node (0, 0, 1, 1) 1 (200, 200, 200)),
              leaf_node (1, 0, 2, 1) 1 (100, 100, 100),
              leaf_node (0, 1, 1, 2) 1 (100, 100, 100),
              leaf_node (1, 1, 2, 2) 1 (200, 200, 200)]) checker_root)"
  "insert_point checker_root \<lparr>x_coordinate = 1, y_coordinate = 0\<rparr>
   = Inr (set_childrens
       (Some [leaf_node (0, 0, 1, 1) 1 (200, 200, 200),
              append_point \<lparr>x_coordinate = 1, y_coordinate = 0\<rparr>
                (leaf_node (1, 0, 2, 1) 1 (100, 100, 100)),
              leaf_node (0, 1, 1, 2) 1 (100, 100, 100),
              leaf_node (1, 1, 2, 2) 1 (200, 200, 200)]) checker_root)"
  "insert_point checker_root \<lparr>x_coordinate = 1, y_coordinate = 1\<rparr>
   = Inr (append_point \<lparr>x_coordinate = 1, y_coordinate = 1\<rparr>
       (set_childrens
         (Some [leaf_node (0, 0, 1, 1) 1 (200, 200, 200),
                leaf_node (1, 0, 2, 1) 1 (100, 100, 100),
                leaf_node (0, 1, 1, 2) 1 (100, 100, 100),
                append_point \<lparr>x_coordinate = 1, y_coordinate = 1\<rparr>
                  (leaf_node (1, 1, 2, 2) 1 (200, 200, 200))]) checker_root))"
  by (subst insert_point.simps, simp add: Let_def with_child_def insert_point_leaf)+

text \<open>
  Claim C2 says that \<open>insert_point\<close> records the point at every node on the descent path. On
  the root of the 2 by 2 tree, which has four children and centre \<open>(1, 1)\<close>: the point
  \<open>(0, 0)\<close> descends into child 0 and the point \<open>(1, 0)\<close> into child 1, both through a
  \<^verbatim>\<open>return\<close>, and the root records neither (only the child does); the point \<open>(1, 1)\<close>
  descends into child 3, where the call falls through, and both the root and the child
  record it.
\<close>

theorem insert_point_skips_ancestor:
  "childrens checker_root \<noteq> None
   \<and> (\<exists>r. insert_point checker_root \<lparr>x_coordinate = 0, y_coordinate = 0\<rparr> = Inr r
          \<and> node_points r = []
          \<and> map node_points (children_list r)
              = [[\<lparr>x_coordinate = 0, y_coordinate = 0\<rparr>], [], [], []])
   \<and> (\<exists>r. insert_point checker_root \<lparr>x_coordinate = 1, y_coordinate = 0\<rparr> = Inr r
          \<and> node_points r = []
          \<and> map node_points (children_list r)
              = [[], [\<lparr>x_coordinate = 1, y_coordinate = 0\<rparr>], [], []])
   \<and> (\<exists>r. insert_point checker_root \<lparr>x_coordinate = 1, y_coordinate = 1\<rparr> = Inr r
          \<and> node_points r = [\<lparr>x_coordinate = 1, y_coordinate = 1\<rparr>]
          \<and> map node_points (children_list r)
              = [[], [], [], [\<lparr>x_coordinate = 1, y_coordinate = 1\<rparr>]])"
  unfolding checker_insert
  by (simp add: append_point_def children_list_def [of "set_childrens _ _"]
      children_list_def [of "set_node_points _ _"])


lemma at_found_leaf:
  "childrens n = None \<Longrightarrow> at_found_node change n p = change n"
  by (subst at_found_node.simps) (simp add: find_node_branch_def Let_def)

lemma remove_point_leaf:
  "childrens n = None \<Longrightarrow>
   remove_point n p =
     (case remove_loop 0 (node_points n) p of
        Inl e \<Rightarrow> Inl e
      | Inr points' \<Rightarrow> Inr (set_node_points points' n))"
  by (simp add: remove_point_def at_found_leaf)

text \<open>
  Claim C3 says that \<open>remove_point\<close> removes an entry with both coordinates equal to those
  of the point, so that the terminal node no longer holds the point. \<^verbatim>\<open>Point.__eq__\<close>
  compares the x coordinate of one point with the y coordinate of the other, so the point
  \<open>(1, 2)\<close> is not equal to itself: on a tree that is a single leaf, after inserting
  \<open>(1, 2)\<close>, removing \<open>(1, 2)\<close> leaves it in the node; and after inserting \<open>(2, 2)\<close>,
  removing \<open>(1, 2)\<close> deletes \<open>(2, 2)\<close>.
\<close>

lemma find_node_leaf:
  "childrens n = None \<Longrightarrow> find_node n p [] = Inr (n, [n])"
  by (subst find_node.simps) (simp add: find_node_branch_def Let_def)

theorem remove_point_keeps_point:
  "\<not> Point_eq \<lparr>x_coordinate = 1, y_coordinate = 2\<rparr> \<lparr>x_coordinate = 1, y_coordinate = 2\<rparr>
   \<and> (\<exists>r1 r2. insert_point (root_node flat_tree) \<lparr>x_coordinate = 1, y_coordinate = 2\<rparr> = Inr r1
          \<and> node_points r1 = [\<lparr>x_coordinate = 1, y_coordinate = 2\<rparr>]
          \<and> find_node r1 \<lparr>x_coordinate = 1, y_coordinate = 2\<rparr> [] = Inr (r1, [r1])
          \<and> remove_point r1 \<lparr>x_coordinate = 1, y_coordinate = 2\<rparr> = Inr r2
          \<and> node_points r2 = [\<lparr>x_coordinate = 1, y_coordinate = 2\<rparr>])
   \<and> (\<exists>r1 r2. insert_point (root_node flat_tree) \<lparr>x_coordinate = 2, y_coordinate = 2\<rparr> = Inr r1
          \<and> node_points r1 = [\<lparr>x_coordinate = 2, y_coordinate = 2\<rparr>]
          \<and> remove_point r1 \<lparr>x_coordinate = 1, y_coordinate = 2\<rparr> = Inr r2
          \<and> node_points r2 = [])"
proof -
  let ?n = "leaf_node (0, 0, 8, 8) 0 (10, 20, 30)"
  let ?P = "\<lparr>x_coordinate = 1, y_coordinate = 2\<rparr>"
  let ?Q = "\<lparr>x_coordinate = 2, y_coordinate = 2\<rparr>"
  have r: "root_node flat_tree = ?n" by (simp add: flat_tree_def)
  have i: "insert_point ?n p = Inr (set_node_points [p] ?n)" for p
    by (simp add: insert_point_leaf append_point_def)
  have e: "\<not> Point_eq ?P ?P" "Point_eq ?Q ?P" "Point_eq ?Q ?Q"
    by (simp_all add: Point_eq_def)
  have l1: "remove_loop 0 [?P] ?P = Inr [?P]"
    by (subst remove_loop.simps, simp add: e)+
  have l2: "remove_loop 0 [?Q] ?P = Inr []"
    by (subst remove_loop.simps, simp add: e)+
  have 1: "remove_point (set_node_points [?P] ?n) ?P
           = Inr (set_node_points [?P] (set_node_points [?P] ?n))"
    by (simp add: remove_point_leaf l1)
  have 2: "remove_point (set_node_points [?Q] ?n) ?P = Inr (set_node_points [] (set_node_points [?Q] ?n))"
    by (simp add: remove_point_leaf l2)
  show ?thesis
    using e(1) by (simp add: r i 1 2 find_node_leaf)
qed

end
